theory Spec2Isabelle
  imports Complex_Main "HOL-Library.Log_Nat"
begin

section \<open>Calendar level model\<close>

text \<open>
  The source is \<^verbatim>\<open>DG.DateTimeAxisViewHelper\<close>. Its \<^verbatim>\<open>EDateTimeLevel\<close> is an
  object of integer codes that the code compares with \<^verbatim>\<open><\<close> and \<^verbatim>\<open><=\<close>;
  \<open>level_code\<close> gives the code of each level.
\<close>

datatype EDateTimeLevel = eSecond | eMinute | eHour | eDay | eMonth | eYear

fun level_code :: "EDateTimeLevel \<Rightarrow> int" where
  "level_code eSecond = 0"
| "level_code eMinute = 1"
| "level_code eHour = 2"
| "level_code eDay = 3"
| "level_code eMonth = 4"
| "level_code eYear = 5"

section \<open>Number arithmetic\<close>

text \<open>
  A JavaScript Number is an IEEE 754 double. A Number that may carry a fraction (a bound
  in seconds, the milliseconds obtained from it, a pixel) is modelled by the rational it
  denotes; the time value of a Date is an integer number of milliseconds. The sum,
  difference, product and quotient of two Numbers are the exact results rounded to the
  nearest double, a tie going to the even significand.

  \<open>binaryExponent x\<close> is, for a positive \<open>x\<close>, the exponent \<open>e\<close> with
  \<open>2 ^ e \<le> x < 2 ^ (e + 1)\<close>. A double has a significand of 53 bits, so that the
  doubles of exponent \<open>e\<close> are the multiples of \<open>2 ^ (e - 52)\<close>; below the exponent -1022
  the spacing stays that of the exponent -1022 (the subnormal numbers). The overflow of
  a magnitude of \<open>2 ^ 1024\<close> or more to Infinity is not modelled: such a result stays a
  rational, which compares with the finite numbers as Infinity does.
\<close>

definition binaryExponent :: "rat \<Rightarrow> int" where
  "binaryExponent x =
     (if 1 \<le> x then bitlen \<lfloor>x\<rfloor> - 1 else - bitlen (\<lceil>1 / x\<rceil> - 1))"

definition roundHalfEven :: "rat \<Rightarrow> int" where
  "roundHalfEven y =
     (let f = \<lfloor>y\<rfloor>; r = y - of_int f in
      if r < 1 / 2 then f else if 1 / 2 < r then f + 1 else if even f then f else f + 1)"

definition roundToDouble :: "rat \<Rightarrow> rat" where
  "roundToDouble x =
     (if x = 0 then 0
      else let e = max (binaryExponent \<bar>x\<bar>) (- 1022); u = power_int 2 (e - 52)
           in sgn x * of_int (roundHalfEven (\<bar>x\<bar> / u)) * u)"

definition number_add :: "rat \<Rightarrow> rat \<Rightarrow> rat" where
  "number_add x y = roundToDouble (x + y)"

definition number_sub :: "rat \<Rightarrow> rat \<Rightarrow> rat" where
  "number_sub x y = roundToDouble (x - y)"

definition number_mul :: "rat \<Rightarrow> rat \<Rightarrow> rat" where
  "number_mul x y = roundToDouble (x * y)"

definition number_div :: "rat \<Rightarrow> rat \<Rightarrow> rat" where
  "number_div x y = roundToDouble (x / y)"

lemmas number_defs = number_add_def number_sub_def number_mul_def number_div_def

section \<open>Units of time\<close>

text \<open>
  The unit sizes in milliseconds. They are whole numbers far below \<open>2 ^ 53\<close>, so that the
  products that define them, and three times each of them, are exact.
\<close>

definition kSecond :: rat where "kSecond = 1000"
definition kMinute :: rat where "kMinute = kSecond * 60"
definition kHour :: rat where "kHour = kMinute * 60"
definition kDay :: rat where "kDay = kHour * 24"
definition kMonth :: rat where "kMonth = kDay * 30"
definition kYear :: rat where "kYear = kDay * 365"

lemmas kUnit_defs = kSecond_def kMinute_def kHour_def kDay_def kMonth_def kYear_def

section \<open>Level resolver\<close>

record LevelPair =
  outerLevel :: EDateTimeLevel
  innerLevel :: EDateTimeLevel

definition determineLevels :: "rat \<Rightarrow> rat \<Rightarrow> LevelPair" where
  "determineLevels iMinDate iMaxDate =
     (let tDateDiff = number_sub iMaxDate iMinDate in
      if tDateDiff < 3 * kMinute then \<lparr>outerLevel = eDay, innerLevel = eSecond\<rparr>
      else if tDateDiff < 3 * kHour then \<lparr>outerLevel = eDay, innerLevel = eMinute\<rparr>
      else if tDateDiff < 3 * kDay then \<lparr>outerLevel = eDay, innerLevel = eHour\<rparr>
      else if tDateDiff < 3 * kMonth then \<lparr>outerLevel = eMonth, innerLevel = eDay\<rparr>
      else if tDateDiff < 3 * kYear then \<lparr>outerLevel = eYear, innerLevel = eMonth\<rparr>
      else \<lparr>outerLevel = eYear, innerLevel = eYear\<rparr>)"

section \<open>The Date object of the host language\<close>

text \<open>
  The label engine works on JavaScript \<^verbatim>\<open>Date\<close> objects. A Date holds a time value, an
  integer number of milliseconds since 1970-01-01T00:00:00, or NaN (an invalid Date): it
  is modelled as \<open>int option\<close>, \<open>None\<close> being the invalid Date. The functions below follow
  the abstract operations of the language standard (Day, DayFromYear, YearFromTime,
  MonthFromTime, DateFromTime, MakeTime, MakeDay, MakeDate, TimeClip). The local time
  zone is taken to be UTC with no daylight saving, so the local calendar fields of a time
  value are its UTC fields.
\<close>

definition msPerSecond :: int where "msPerSecond = 1000"
definition msPerMinute :: int where "msPerMinute = 60000"
definition msPerHour :: int where "msPerHour = 3600000"
definition msPerDay :: int where "msPerDay = 86400000"

lemmas msPer_defs = msPerSecond_def msPerMinute_def msPerHour_def msPerDay_def

definition Day :: "int \<Rightarrow> int" where
  "Day t = t div msPerDay"

definition TimeWithinDay :: "int \<Rightarrow> int" where
  "TimeWithinDay t = t mod msPerDay"

definition DayFromYear :: "int \<Rightarrow> int" where
  "DayFromYear y =
     365 * (y - 1970) + (y - 1969) div 4 - (y - 1901) div 100 + (y - 1601) div 400"

definition leap_year :: "int \<Rightarrow> bool" where
  "leap_year y = (y mod 4 = 0 \<and> (y mod 100 \<noteq> 0 \<or> y mod 400 = 0))"

definition DaysInYear :: "int \<Rightarrow> int" where
  "DaysInYear y = (if leap_year y then 366 else 365)"

text \<open>
  The standard defines YearFromTime as the largest year whose first day is not after the
  given day. \<open>YearFromDay\<close> computes it: the mean year has 146097 / 400 days, which gives
  an estimate that is off by at most one year.
\<close>

definition YearFromDay :: "int \<Rightarrow> int" where
  "YearFromDay d =
     (let y = 1970 + (400 * d) div 146097 in
      if DayFromYear (y + 1) \<le> d then y + 1
      else if d < DayFromYear y then y - 1
      else y)"

definition YearFromTime :: "int \<Rightarrow> int" where
  "YearFromTime t = YearFromDay (Day t)"

definition DayWithinYear :: "int \<Rightarrow> int" where
  "DayWithinYear t = Day t - DayFromYear (YearFromTime t)"

definition InLeapYear :: "int \<Rightarrow> int" where
  "InLeapYear t = (if leap_year (YearFromTime t) then 1 else 0)"

text \<open>The month (0 to 11) of the day numbered \<open>d\<close> within a year; \<open>l\<close> is 1 in a leap year.\<close>

definition month_of_year_day :: "int \<Rightarrow> int \<Rightarrow> int" where
  "month_of_year_day d l =
     (if d < 31 then 0
      else if d < 59 + l then 1
      else if d < 90 + l then 2
      else if d < 120 + l then 3
      else if d < 151 + l then 4
      else if d < 181 + l then 5
      else if d < 212 + l then 6
      else if d < 243 + l then 7
      else if d < 273 + l then 8
      else if d < 304 + l then 9
      else if d < 334 + l then 10
      else 11)"

text \<open>The number, within its year, of the first day of month \<open>m\<close> (0 to 11).\<close>

definition month_start :: "int \<Rightarrow> int \<Rightarrow> int" where
  "month_start m l =
     (if m = 0 then 0
      else if m = 1 then 31
      else if m = 2 then 59 + l
      else if m = 3 then 90 + l
      else if m = 4 then 120 + l
      else if m = 5 then 151 + l
      else if m = 6 then 181 + l
      else if m = 7 then 212 + l
      else if m = 8 then 243 + l
      else if m = 9 then 273 + l
      else if m = 10 then 304 + l
      else 334 + l)"

definition MonthFromTime :: "int \<Rightarrow> int" where
  "MonthFromTime t = month_of_year_day (DayWithinYear t) (InLeapYear t)"

definition DateFromTime :: "int \<Rightarrow> int" where
  "DateFromTime t = DayWithinYear t - month_start (MonthFromTime t) (InLeapYear t) + 1"

definition HourFromTime :: "int \<Rightarrow> int" where
  "HourFromTime t = (t div msPerHour) mod 24"

definition MinFromTime :: "int \<Rightarrow> int" where
  "MinFromTime t = (t div msPerMinute) mod 60"

definition SecFromTime :: "int \<Rightarrow> int" where
  "SecFromTime t = (t div msPerSecond) mod 60"

definition msFromTime :: "int \<Rightarrow> int" where
  "msFromTime t = t mod msPerSecond"

definition MakeTime :: "int \<Rightarrow> int \<Rightarrow> int \<Rightarrow> int \<Rightarrow> int" where
  "MakeTime hour mn sec ms = hour * msPerHour + mn * msPerMinute + sec * msPerSecond + ms"

definition MakeDay :: "int \<Rightarrow> int \<Rightarrow> int \<Rightarrow> int" where
  "MakeDay year month date =
     (let ym = year + month div 12;
          mn = month mod 12
      in DayFromYear ym + month_start mn (if leap_year ym then 1 else 0) + date - 1)"

definition MakeDate :: "int \<Rightarrow> int \<Rightarrow> int" where
  "MakeDate day time = day * msPerDay + time"

definition TimeClip :: "int \<Rightarrow> int option" where
  "TimeClip t = (if \<bar>t\<bar> > 8640000000000000 then None else Some t)"

text \<open>
  \<^verbatim>\<open>new Date(value)\<close> on a Number: the fraction is dropped (towards zero) and the
  result is clipped to the range of valid time values.
\<close>

definition truncate_number :: "rat \<Rightarrow> int" where
  "truncate_number r = (if r < 0 then - \<lfloor>- r\<rfloor> else \<lfloor>r\<rfloor>)"

definition new_Date_value :: "rat \<Rightarrow> int option" where
  "new_Date_value v = (if \<bar>v\<bar> > 8640000000000000 then None else Some (truncate_number v))"

text \<open>
  \<^verbatim>\<open>new Date(year, month, date, hours, minutes, seconds)\<close>: a year from 0 to 99 stands
  for 1900 + year; fields out of their range carry into the next ones through MakeDay and
  MakeTime. The shorter forms leave the missing fields at 0.
\<close>

definition new_Date6 :: "int \<Rightarrow> int \<Rightarrow> int \<Rightarrow> int \<Rightarrow> int \<Rightarrow> int \<Rightarrow> int option" where
  "new_Date6 y m dt h mi s =
     (let yr = (if 0 \<le> y \<and> y \<le> 99 then 1900 + y else y)
      in TimeClip (MakeDate (MakeDay yr m dt) (MakeTime h mi s 0)))"

definition new_Date3 :: "int \<Rightarrow> int \<Rightarrow> int \<Rightarrow> int option" where
  "new_Date3 y m dt = new_Date6 y m dt 0 0 0"

definition new_Date4 :: "int \<Rightarrow> int \<Rightarrow> int \<Rightarrow> int \<Rightarrow> int option" where
  "new_Date4 y m dt h = new_Date6 y m dt h 0 0"

definition new_Date5 :: "int \<Rightarrow> int \<Rightarrow> int \<Rightarrow> int \<Rightarrow> int \<Rightarrow> int option" where
  "new_Date5 y m dt h mi = new_Date6 y m dt h mi 0"

definition getFullYear :: "int \<Rightarrow> int" where "getFullYear t = YearFromTime t"
definition getMonth :: "int \<Rightarrow> int" where "getMonth t = MonthFromTime t"
definition getDate :: "int \<Rightarrow> int" where "getDate t = DateFromTime t"
definition getHours :: "int \<Rightarrow> int" where "getHours t = HourFromTime t"
definition getMinutes :: "int \<Rightarrow> int" where "getMinutes t = MinFromTime t"
definition getSeconds :: "int \<Rightarrow> int" where "getSeconds t = SecFromTime t"

lemmas getter_defs =
  getFullYear_def getMonth_def getDate_def getHours_def getMinutes_def getSeconds_def

text \<open>\<^verbatim>\<open>a.valueOf() < b\<close>: a comparison with NaN is false.\<close>

definition date_less :: "int option \<Rightarrow> rat \<Rightarrow> bool" where
  "date_less d v = (case d of None \<Rightarrow> False | Some t \<Rightarrow> of_int t < v)"

subsection \<open>Numbers as strings\<close>

definition digit_char :: "int \<Rightarrow> char" where
  "digit_char d = ''0123456789'' ! nat d"

function string_of_nonneg :: "int \<Rightarrow> string" where
  "string_of_nonneg n =
     (if n < 10 then [digit_char n]
      else string_of_nonneg (n div 10) @ [digit_char (n mod 10)])"
  by pat_completeness auto
termination
  by (relation "measure nat") auto

declare string_of_nonneg.simps [simp del]

definition string_of_int :: "int \<Rightarrow> string" where
  "string_of_int i = (if i < 0 then ''-'' @ string_of_nonneg (- i) else string_of_nonneg i)"

text \<open>\<^verbatim>\<open>String(v)\<close> of a field read from a Date: the field of an invalid Date is NaN.\<close>

definition String_of_field :: "int option \<Rightarrow> string" where
  "String_of_field v = (case v of None \<Rightarrow> ''NaN'' | Some i \<Rightarrow> string_of_int i)"

text \<open>\<^verbatim>\<open>v < 10 ? '0' + v : String(v)\<close>\<close>

definition two_digits :: "int option \<Rightarrow> string" where
  "two_digits v =
     (case v of None \<Rightarrow> ''NaN''
      | Some i \<Rightarrow> if i < 10 then ''0'' @ string_of_int i else string_of_int i)"

section \<open>Calendar label engine\<close>

text \<open>
  What the engine takes from its surroundings: the localisation of a string key
  (\<^verbatim>\<open>String.prototype.loc\<close>), the locale's rendering of a Date
  (\<^verbatim>\<open>toLocaleDateString\<close>, which is \<^verbatim>\<open>Invalid Date\<close> on an invalid one) and the
  measured width of a text (the x extent of \<^verbatim>\<open>textExtentOnCanvas\<close>).
\<close>

record Collaborators =
  loc :: "string \<Rightarrow> string"
  toLocaleDateString :: "int option \<Rightarrow> string"
  textExtentOnCanvas :: "string \<Rightarrow> rat"

definition kMonthNames :: "string list" where
  "kMonthNames =
     [''DG.Formula.DateShortMonthJanuary'',
      ''DG.Formula.DateShortMonthFebruary'',
      ''DG.Formula.DateShortMonthMarch'',
      ''DG.Formula.DateShortMonthApril'',
      ''DG.Formula.DateShortMonthMay'',
      ''DG.Formula.DateShortMonthJune'',
      ''DG.Formula.DateShortMonthJuly'',
      ''DG.Formula.DateShortMonthAugust'',
      ''DG.Formula.DateShortMonthSeptember'',
      ''DG.Formula.DateShortMonthOctober'',
      ''DG.Formula.DateShortMonthNovember'',
      ''DG.Formula.DateShortMonthDecember'']"

record DateLabel =
  labelString :: string
  labelDate :: "int option"

datatype jserror = TypeError

text \<open>\<^verbatim>\<open>tResultDate.valueOf() < iDate.valueOf()\<close>: false when the result is invalid.\<close>

definition date_before :: "int option \<Rightarrow> int \<Rightarrow> bool" where
  "date_before d t = (case d of None \<Rightarrow> False | Some r \<Rightarrow> r < t)"

text \<open>
  Modelled from the spec: \<^verbatim>\<open>DG.isDate\<close>, which is not among the sources. Every
  function of the engine starts with
  \<^verbatim>\<open>if (!DG.isDate(iDate)) iDate = new Date(iDate); if (DG.isDate(iDate)) {...}\<close>.
  Following the spec's error handling (an invalid instant makes the level-label functions
  return the invalid-instant marker), a value that is not a valid date skips the body, so
  that the function returns its initial values, the empty label and NaN. The functions
  below take the Date (\<open>None\<close> when invalid); a caller holding a Number converts it with
  \<open>new_Date_value\<close>.
\<close>

definition getLevelLabelForValue ::
    "Collaborators \<Rightarrow> EDateTimeLevel \<Rightarrow> int option \<Rightarrow> DateLabel" where
  "getLevelLabelForValue env iLevel iDate =
     (case iDate of
        None \<Rightarrow> \<lparr>labelString = [], labelDate = None\<rparr>
      | Some t \<Rightarrow>
          let tYear = getFullYear t;
              tMonth = getMonth t
          in if iLevel = eYear then
               \<lparr>labelString = string_of_int tYear, labelDate = new_Date3 tYear 1 1\<rparr>
             else if iLevel = eMonth then
               \<lparr>labelString = loc env (kMonthNames ! nat tMonth) @ '', '' @ string_of_int tYear,
                labelDate = new_Date3 tYear tMonth 1\<rparr>
             else
               let tDay = getDate t;
                   (tHour, tMinute, tSecond) =
                     (if level_code iLevel < level_code eDay then
                        (getHours t,
                         if level_code iLevel < level_code eHour then
                           (getMinutes t,
                            if level_code iLevel < level_code eMinute then getSeconds t else 0)
                         else (0, 0))
                      else (0, 0, 0));
                   tLabelDate = new_Date6 tYear tMonth tDay tHour tMinute tSecond
               in \<lparr>labelString = toLocaleDateString env tLabelDate, labelDate = tLabelDate\<rparr>)"

definition getNextLevelLabelForValue ::
    "Collaborators \<Rightarrow> EDateTimeLevel \<Rightarrow> int option \<Rightarrow> DateLabel" where
  "getNextLevelLabelForValue env iLevel iDate =
     (case iDate of
        None \<Rightarrow> getLevelLabelForValue env iLevel None
      | Some t \<Rightarrow>
          let tYear = getFullYear t;
              tMonth = getMonth t;
              tDayOfMonth = getDate t;
              tHour = getHours t;
              tMinute = getMinutes t;
              tSecond = getSeconds t;
              (tYear, tMonth, tDayOfMonth, tHour, tMinute, tSecond) =
                (case iLevel of
                   eYear \<Rightarrow> (tYear + 1, tMonth, tDayOfMonth, tHour, tMinute, tSecond)
                 | eMonth \<Rightarrow>
                     (if tMonth + 1 > 12 then (tYear + 1, 1, tDayOfMonth, tHour, tMinute, tSecond)
                      else (tYear, tMonth + 1, tDayOfMonth, tHour, tMinute, tSecond))
                 | eDay \<Rightarrow> (tYear, tMonth, tDayOfMonth + 1, tHour, tMinute, tSecond)
                 | eHour \<Rightarrow>
                     (if tHour + 1 > 24 then (tYear, tMonth, tDayOfMonth + 1, 0, tMinute, tSecond)
                      else (tYear, tMonth, tDayOfMonth, tHour + 1, tMinute, tSecond))
                 | eMinute \<Rightarrow>
                     (if tMinute + 1 > 60 then (tYear, tMonth, tDayOfMonth, tHour + 1, 0, tSecond)
                      else (tYear, tMonth, tDayOfMonth, tHour, tMinute + 1, tSecond))
                 | eSecond \<Rightarrow>
                     (if tSecond + 1 > 60 then (tYear, tMonth, tDayOfMonth, tHour, tMinute + 1, 0)
                      else (tYear, tMonth, tDayOfMonth, tHour, tMinute, tSecond + 1)));
              tNextDate =
                (if level_code iLevel \<le> level_code eHour
                 then new_Date6 tYear tMonth tDayOfMonth tHour tMinute tSecond
                 else new_Date3 tYear tMonth tDayOfMonth)
          in getLevelLabelForValue env iLevel tNextDate)"

text \<open>
  \<^verbatim>\<open>kMonthNames[tResultDate.getMonth()].loc()\<close>: on an invalid Date the month is NaN, the
  array has no such element, and calling \<^verbatim>\<open>loc\<close> on \<^verbatim>\<open>undefined\<close> throws.
\<close>

definition monthNameOf :: "Collaborators \<Rightarrow> int option \<Rightarrow> jserror + string" where
  "monthNameOf env d =
     (case d of None \<Rightarrow> Inl TypeError
      | Some r \<Rightarrow> Inr (loc env (kMonthNames ! nat (getMonth r))))"

definition findFirstDateAboveOrAtLevel ::
    "Collaborators \<Rightarrow> EDateTimeLevel \<Rightarrow> int option \<Rightarrow> jserror + DateLabel" where
  "findFirstDateAboveOrAtLevel env iLevel iDate =
     (case iDate of
        None \<Rightarrow> Inr \<lparr>labelString = [], labelDate = None\<rparr>
      | Some t \<Rightarrow>
          let tYear = getFullYear t;
              tMonth = getMonth t;
              tDayOfMonth = getDate t;
              tHour = getHours t;
              tMinute = getMinutes t;
              tSecond = getSeconds t
          in case iLevel of
               eYear \<Rightarrow>
                 let tResultDate = new_Date3 tYear 1 1 in
                 if date_before tResultDate t
                 then Inr \<lparr>labelString = string_of_int (tYear + 1),
                          labelDate = new_Date3 (tYear + 1) 1 1\<rparr>
                 else Inr \<lparr>labelString = string_of_int tYear, labelDate = tResultDate\<rparr>
             | eMonth \<Rightarrow>
                 let tResultDate = new_Date3 tYear tMonth 1;
                     tResultDate =
                       (if date_before tResultDate t then
                          (let (tYear, tMonth) =
                                 (if tMonth + 1 > 12 then (tYear + 1, 1) else (tYear, tMonth + 1))
                           in new_Date3 tYear tMonth 1)
                        else tResultDate)
                 in (case monthNameOf env tResultDate of
                       Inl e \<Rightarrow> Inl e
                     | Inr name \<Rightarrow> Inr \<lparr>labelString = name, labelDate = tResultDate\<rparr>)
             | eDay \<Rightarrow>
                 let tResultDate = new_Date3 tYear tMonth tDayOfMonth;
                     tResultDate =
                       (if date_before tResultDate t
                        then new_Date3 tYear tMonth (tDayOfMonth + 1) else tResultDate)
                 in Inr \<lparr>labelString = String_of_field (map_option getDate tResultDate),
                          labelDate = tResultDate\<rparr>
             | eHour \<Rightarrow>
                 let tResultDate = new_Date4 tYear tMonth tDayOfMonth tHour;
                     tResultDate =
                       (if date_before tResultDate t
                        then new_Date4 tYear tMonth tDayOfMonth (tHour + 1) else tResultDate)
                 in Inr \<lparr>labelString = String_of_field (map_option getHours tResultDate) @ '':00'',
                          labelDate = tResultDate\<rparr>
             | eMinute \<Rightarrow>
                 let tResultDate = new_Date5 tYear tMonth tDayOfMonth tHour tMinute;
                     tResultDate =
                       (if date_before tResultDate t
                        then new_Date5 tYear tMonth tDayOfMonth tHour (tMinute + 1)
                        else tResultDate)
                 in Inr \<lparr>labelString = String_of_field (map_option getMinutes tResultDate),
                          labelDate = tResultDate\<rparr>
             | eSecond \<Rightarrow>
                 let tResultDate = new_Date6 tYear tMonth tDayOfMonth tHour tMinute tSecond;
                     tResultDate =
                       (if date_before tResultDate t
                        then new_Date6 tYear tMonth tDayOfMonth tHour tMinute tSecond
                        else tResultDate)
                 in Inr \<lparr>labelString = String_of_field (map_option getSeconds tResultDate),
                          labelDate = tResultDate\<rparr>)"

text \<open>\<^verbatim>\<open>while (tMonth > 12) { tYear++; tMonth -= 12; }\<close>\<close>

function carryMonths :: "int \<Rightarrow> int \<Rightarrow> int \<times> int" where
  "carryMonths tYear tMonth =
     (if tMonth > 12 then carryMonths (tYear + 1) (tMonth - 12) else (tYear, tMonth))"
  by pat_completeness auto
termination
  by (relation "measure (\<lambda>(y, m). nat (m - 12))") auto

declare carryMonths.simps [simp del]

text \<open>\<^verbatim>\<open>while (tHour > 24) { tDayOfMonth++; tHour -= 24; }\<close>\<close>

function carryHours :: "int \<Rightarrow> int \<Rightarrow> int \<times> int" where
  "carryHours tDayOfMonth tHour =
     (if tHour > 24 then carryHours (tDayOfMonth + 1) (tHour - 24) else (tDayOfMonth, tHour))"
  by pat_completeness auto
termination
  by (relation "measure (\<lambda>(d, h). nat (h - 24))") auto

declare carryHours.simps [simp del]

definition getLabelForIncrementedDateAtLevel ::
    "Collaborators \<Rightarrow> EDateTimeLevel \<Rightarrow> int option \<Rightarrow> int \<Rightarrow> jserror + DateLabel" where
  "getLabelForIncrementedDateAtLevel env iLevel iDate iIncrementBy =
     (case iDate of
        None \<Rightarrow> Inr \<lparr>labelString = [], labelDate = None\<rparr>
      | Some t \<Rightarrow>
          let tYear = getFullYear t;
              tMonth = getMonth t;
              tDayOfMonth = getDate t;
              tHour = getHours t;
              tMinute = getMinutes t;
              tSecond = getSeconds t
          in case iLevel of
               eYear \<Rightarrow>
                 let tYear = tYear + iIncrementBy
                 in Inr \<lparr>labelString = string_of_int tYear, labelDate = new_Date3 tYear 1 1\<rparr>
             | eMonth \<Rightarrow>
                 let (tYear, tMonth) = carryMonths tYear (tMonth + iIncrementBy);
                     tResultDate = new_Date3 tYear tMonth 1
                 in (case monthNameOf env tResultDate of
                       Inl e \<Rightarrow> Inl e
                     | Inr name \<Rightarrow> Inr \<lparr>labelString = name, labelDate = tResultDate\<rparr>)
             | eDay \<Rightarrow>
                 let tResultDate = new_Date3 tYear tMonth (tDayOfMonth + iIncrementBy)
                 in Inr \<lparr>labelString = String_of_field (map_option getDate tResultDate),
                          labelDate = tResultDate\<rparr>
             | eHour \<Rightarrow>
                 let (tDayOfMonth, tHour) = carryHours tDayOfMonth (tHour + iIncrementBy);
                     tResultDate = new_Date4 tYear tMonth tDayOfMonth tHour
                 in Inr \<lparr>labelString = String_of_field (map_option getHours tResultDate) @ '':00'',
                          labelDate = tResultDate\<rparr>
             | eMinute \<Rightarrow>
                 let tResultDate = new_Date5 tYear tMonth tDayOfMonth tHour (tMinute + iIncrementBy);
                     tMinuteString = two_digits (map_option getMinutes tResultDate)
                 in Inr \<lparr>labelString = string_of_int tHour @ '':'' @ tMinuteString,
                          labelDate = tResultDate\<rparr>
             | eSecond \<Rightarrow>
                 let tResultDate =
                       new_Date6 tYear tMonth tDayOfMonth tHour tMinute (tSecond + iIncrementBy);
                     tMinuteString = two_digits (Some tMinute);
                     tSecondString = two_digits (map_option getSeconds tResultDate)
                 in Inr \<lparr>labelString =
                            string_of_int tHour @ '':'' @ tMinuteString @ '':'' @ tSecondString,
                          labelDate = tResultDate\<rparr>)"

section \<open>Tick layout\<close>

text \<open>
  The axis geometry is owned by the view; the engine only reads it. Bounds are in
  seconds, \<open>dataToCoordinate\<close> maps a value in seconds to a pixel.
\<close>

datatype Orientation = horizontal | vertical

record AxisGeometry =
  lowerBound :: rat
  upperBound :: rat
  pixelMin :: rat
  pixelMax :: rat
  orientation :: Orientation
  dataToCoordinate :: "rat \<Rightarrow> rat"

subsection \<open>The tick iterator\<close>

text \<open>
  The loop of \<^verbatim>\<open>forEachTickDo\<close>. The calls of the visitor are collected in a list of
  pairs (value, pixel); an exception thrown by the label engine ends the loop and is
  returned beside the calls made so far. A loop that does not end is \<open>None\<close>.
\<close>

partial_function (option) forEachTick_loop ::
    "Collaborators \<Rightarrow> AxisGeometry \<Rightarrow> EDateTimeLevel \<Rightarrow> rat \<Rightarrow> int option
      \<Rightarrow> (rat \<times> rat) list \<Rightarrow> ((rat \<times> rat) list \<times> jserror option) option" where
  "forEachTick_loop env geom iLevel tUpper tDate visited =
     (case tDate of
        None \<Rightarrow> Some (visited, None)
      | Some tValue \<Rightarrow>
          if of_int tValue < tUpper then
            (let visited = visited @
                   [(of_int tValue, dataToCoordinate geom (number_div (of_int tValue) 1000))]
             in case getLabelForIncrementedDateAtLevel env iLevel tDate 1 of
                  Inl e \<Rightarrow> Some (visited, Some e)
                | Inr tDateLabel \<Rightarrow>
                    forEachTick_loop env geom iLevel tUpper (labelDate tDateLabel) visited)
          else Some (visited, None))"

declare forEachTick_loop.simps [code]

definition forEachTickDo ::
    "Collaborators \<Rightarrow> AxisGeometry \<Rightarrow> ((rat \<times> rat) list \<times> jserror option) option" where
  "forEachTickDo env geom =
     (let tLower = number_mul 1000 (lowerBound geom);
          tUpper = number_mul 1000 (upperBound geom);
          tLevels = determineLevels tLower tUpper
      in case findFirstDateAboveOrAtLevel env (innerLevel tLevels) (new_Date_value tLower) of
           Inl e \<Rightarrow> Some ([], Some e)
         | Inr tDateLabel \<Rightarrow>
             forEachTick_loop env geom (innerLevel tLevels) tUpper (labelDate tDateLabel) [])"

subsection \<open>The adaptive stride search\<close>

text \<open>
  The inner loop of \<^verbatim>\<open>findDrawValueModulus\<close> simulates the ticks of one stride
  \<open>tInterval\<close> until two labels collide or the upper bound is reached. Its state is
  \<open>tDate\<close>, \<open>tLabel\<close>, \<open>tLastPixelUsed\<close> (\<open>None\<close> while it is still undefined: a
  comparison with it is then false) and \<open>tFirstTime\<close>. The result is
  \<open>tFoundCollision\<close>.
\<close>

partial_function (option) simulateStride ::
    "Collaborators \<Rightarrow> AxisGeometry \<Rightarrow> EDateTimeLevel \<Rightarrow> int \<Rightarrow> int option \<Rightarrow> string
      \<Rightarrow> rat option \<Rightarrow> bool \<Rightarrow> (jserror + bool) option" where
  "simulateStride env geom iInnerLevel tInterval tDate tLabel tLastPixelUsed tFirstTime =
     (case tDate of
        None \<Rightarrow> Some (Inr False)
      | Some d \<Rightarrow>
          if of_int d < number_mul (upperBound geom) 1000 then
            (let tPixel = dataToCoordinate geom (number_div (of_int d) 1000);
                 tTextExtent = textExtentOnCanvas env tLabel;
                 tHalfWidth = number_div (number_mul 5 tTextExtent) 8;
                 tOverlapped =
                   (case tLastPixelUsed of
                      None \<Rightarrow> False
                    | Some l \<Rightarrow>
                        if orientation geom = horizontal then number_sub tPixel tHalfWidth < l
                        else number_add tPixel tHalfWidth > l)
             in if tFirstTime \<or> \<not> tOverlapped then
                  (case getLabelForIncrementedDateAtLevel env iInnerLevel tDate tInterval of
                     Inl e \<Rightarrow> Some (Inl e)
                   | Inr tCurrentDateLabel \<Rightarrow>
                       simulateStride env geom iInnerLevel tInterval
                         (labelDate tCurrentDateLabel) (labelString tCurrentDateLabel)
                         (Some (number_add tPixel
                            (if orientation geom = horizontal then tHalfWidth else - tHalfWidth)))
                         False)
                else Some (Inr True))
          else Some (Inr False))"

declare simulateStride.simps [code]

text \<open>
  The outer loop: \<open>tInterval\<close> starts at 1 and grows by one after every simulation that
  found a collision; the first interval whose simulation found none is returned.
\<close>

partial_function (option) findWorkableInterval ::
    "Collaborators \<Rightarrow> AxisGeometry \<Rightarrow> EDateTimeLevel \<Rightarrow> DateLabel \<Rightarrow> int
      \<Rightarrow> (jserror + int) option" where
  "findWorkableInterval env geom iInnerLevel iFirstDateLabel tInterval =
     Option.bind
       (simulateStride env geom iInnerLevel tInterval
          (labelDate iFirstDateLabel) (labelString iFirstDateLabel) None True)
       (\<lambda>r. case r of
               Inl e \<Rightarrow> Some (Inl e)
             | Inr tFoundCollision \<Rightarrow>
                 if tFoundCollision
                 then findWorkableInterval env geom iInnerLevel iFirstDateLabel (tInterval + 1)
                 else Some (Inr tInterval))"

declare findWorkableInterval.simps [code]

definition findDrawValueModulus ::
    "Collaborators \<Rightarrow> AxisGeometry \<Rightarrow> EDateTimeLevel \<Rightarrow> DateLabel \<Rightarrow> (jserror + int) option" where
  "findDrawValueModulus env geom iInnerLevel iFirstDateLabel =
     findWorkableInterval env geom iInnerLevel iFirstDateLabel 1"

subsection \<open>Drawing the inner ticks\<close>

text \<open>
  \<^verbatim>\<open>drawTickAndLabel\<close> draws a tick line at the pixel of the date, offset by the start of
  the axis, and, when asked to, the label text centred on the same pixel. The model keeps
  the pixel and the text, if drawn.
\<close>

definition drawTickAndLabel :: "AxisGeometry \<Rightarrow> int \<Rightarrow> string \<Rightarrow> bool \<Rightarrow> rat \<times> string option" where
  "drawTickAndLabel geom d tLabel iDrawLabel =
     (let tPixel = dataToCoordinate geom (number_div (of_int d) 1000);
          tPixel = number_add tPixel
                     (if orientation geom = horizontal then pixelMin geom else pixelMax geom)
      in (tPixel, if iDrawLabel then Some tLabel else None))"

text \<open>
  The drawing loop of \<^verbatim>\<open>drawInnerLabels\<close>: every tick below the upper bound is drawn,
  with its label when \<open>tCounter\<close> is 0. The result is the list of what was drawn, and the
  exception that ended the loop, if any.
\<close>

partial_function (option) drawInnerLabels_loop ::
    "Collaborators \<Rightarrow> AxisGeometry \<Rightarrow> EDateTimeLevel \<Rightarrow> int \<Rightarrow> DateLabel \<Rightarrow> int
      \<Rightarrow> (rat \<times> string option) list \<Rightarrow> ((rat \<times> string option) list \<times> jserror option) option"
    where
  "drawInnerLabels_loop env geom iLevel tDrawValueModulus tDateLabel tCounter drawn =
     (case labelDate tDateLabel of
        None \<Rightarrow> Some (drawn, None)
      | Some d \<Rightarrow>
          if of_int d < number_mul (upperBound geom) 1000 then
            (let drawn = drawn @ [drawTickAndLabel geom d (labelString tDateLabel) (tCounter = 0)];
                 tCounter = (tCounter + 1) mod tDrawValueModulus
             in case getLabelForIncrementedDateAtLevel env iLevel (labelDate tDateLabel) 1 of
                  Inl e \<Rightarrow> Some (drawn, Some e)
                | Inr tNextLabel \<Rightarrow>
                    drawInnerLabels_loop env geom iLevel tDrawValueModulus tNextLabel tCounter drawn)
          else Some (drawn, None))"

declare drawInnerLabels_loop.simps [code]

definition drawInnerLabels ::
    "Collaborators \<Rightarrow> AxisGeometry \<Rightarrow> EDateTimeLevel
      \<Rightarrow> ((rat \<times> string option) list \<times> jserror option) option" where
  "drawInnerLabels env geom iLevel =
     (case findFirstDateAboveOrAtLevel env iLevel
             (new_Date_value (number_mul (lowerBound geom) 1000)) of
        Inl e \<Rightarrow> Some ([], Some e)
      | Inr tDateLabel \<Rightarrow>
          Option.bind (findDrawValueModulus env geom iLevel tDateLabel)
            (\<lambda>m. case m of
                    Inl e \<Rightarrow> Some ([], Some e)
                  | Inr tDrawValueModulus \<Rightarrow>
                      (case getLabelForIncrementedDateAtLevel env iLevel (labelDate tDateLabel) 0 of
                         Inl e \<Rightarrow> Some ([], Some e)
                       | Inr tDateLabel \<Rightarrow>
                           drawInnerLabels_loop env geom iLevel tDrawValueModulus tDateLabel 0 [])))"

text \<open>The labels among the drawn ticks, each with its pixel and its measured width.\<close>

fun drawnLabels :: "Collaborators \<Rightarrow> (rat \<times> string option) list \<Rightarrow> (rat \<times> rat) list" where
  "drawnLabels env [] = []"
| "drawnLabels env ((tPixel, None) # rest) = drawnLabels env rest"
| "drawnLabels env ((tPixel, Some tLabel) # rest) =
     (tPixel, textExtentOnCanvas env tLabel) # drawnLabels env rest"

section \<open>Aligned instants\<close>

text \<open>
  An instant is aligned at a level when every calendar field below the level is at its
  minimum: month 0, day of month 1, hour, minute, second and millisecond 0.
\<close>

fun aligned :: "EDateTimeLevel \<Rightarrow> int \<Rightarrow> bool" where
  "aligned eSecond t = (msFromTime t = 0)"
| "aligned eMinute t = (SecFromTime t = 0 \<and> msFromTime t = 0)"
| "aligned eHour t = (MinFromTime t = 0 \<and> SecFromTime t = 0 \<and> msFromTime t = 0)"
| "aligned eDay t =
     (HourFromTime t = 0 \<and> MinFromTime t = 0 \<and> SecFromTime t = 0 \<and> msFromTime t = 0)"
| "aligned eMonth t =
     (DateFromTime t = 1 \<and> HourFromTime t = 0 \<and> MinFromTime t = 0 \<and> SecFromTime t = 0
      \<and> msFromTime t = 0)"
| "aligned eYear t =
     (MonthFromTime t = 0 \<and> DateFromTime t = 1 \<and> HourFromTime t = 0 \<and> MinFromTime t = 0
      \<and> SecFromTime t = 0 \<and> msFromTime t = 0)"

text \<open>
  The instant \<open>n\<close> units of a level after the instant \<open>t\<close> rounded down to the level, as
  an unbounded number of milliseconds. At the year level the unit of the code starts on
  the first day of the month with index 1, which is February.
\<close>

fun units_after :: "EDateTimeLevel \<Rightarrow> int \<Rightarrow> int \<Rightarrow> int" where
  "units_after eSecond t n = (t div msPerSecond + n) * msPerSecond"
| "units_after eMinute t n = (t div msPerMinute + n) * msPerMinute"
| "units_after eHour t n = (t div msPerHour + n) * msPerHour"
| "units_after eDay t n = (Day t + n) * msPerDay"
| "units_after eMonth t n = MakeDay (YearFromTime t) (MonthFromTime t + n) 1 * msPerDay"
| "units_after eYear t n = MakeDay (YearFromTime t + n) 1 1 * msPerDay"

text \<open>The instant of a result of the engine, or the exception it raised.\<close>

definition resultDate :: "jserror + DateLabel \<Rightarrow> jserror + int option" where
  "resultDate r = map_sum id labelDate r"

text \<open>The label text of a result of the engine, or the exception it raised.\<close>

definition resultString :: "jserror + DateLabel \<Rightarrow> jserror + string" where
  "resultString r = map_sum id labelString r"

text \<open>
  Incrementing by \<open>a\<close> and then, from the instant obtained, by \<open>b\<close>; an exception of the
  first call ends the chain.
\<close>

definition incrementTwice ::
    "Collaborators \<Rightarrow> EDateTimeLevel \<Rightarrow> int option \<Rightarrow> int \<Rightarrow> int \<Rightarrow> jserror + DateLabel" where
  "incrementTwice env iLevel iDate a b =
     (case getLabelForIncrementedDateAtLevel env iLevel iDate a of
        Inl e \<Rightarrow> Inl e
      | Inr l \<Rightarrow> getLabelForIncrementedDateAtLevel env iLevel (labelDate l) b)"

text \<open>
  The two label texts of an instant as the amended reading of the specification
  describes them, to be compared with the texts the code returns. The text of an inner
  tick is the year, the month name alone, the day of the month, or the time of day down
  to the level. The text of an outer label is the year, the month name followed by the
  year, or, below the month level, the rendering of the date by the locale.
\<close>

fun innerTickText :: "Collaborators \<Rightarrow> EDateTimeLevel \<Rightarrow> int \<Rightarrow> string" where
  "innerTickText env eYear x = string_of_int (getFullYear x)"
| "innerTickText env eMonth x = loc env (kMonthNames ! nat (getMonth x))"
| "innerTickText env eDay x = string_of_int (getDate x)"
| "innerTickText env eHour x = string_of_int (getHours x) @ '':00''"
| "innerTickText env eMinute x =
     string_of_int (getHours x) @ '':'' @ two_digits (Some (getMinutes x))"
| "innerTickText env eSecond x =
     string_of_int (getHours x) @ '':'' @ two_digits (Some (getMinutes x)) @ '':''
       @ two_digits (Some (getSeconds x))"

fun outerLabelText :: "Collaborators \<Rightarrow> EDateTimeLevel \<Rightarrow> int \<Rightarrow> string" where
  "outerLabelText env eYear x = string_of_int (getFullYear x)"
| "outerLabelText env eMonth x =
     loc env (kMonthNames ! nat (getMonth x)) @ '', '' @ string_of_int (getFullYear x)"
| "outerLabelText env level x = toLocaleDateString env (Some x)"

section \<open>Label extents\<close>

text \<open>
  A drawn label is a pair (pixel, width of its text). An inner label is drawn centred on
  the pixel of its tick, so that along the axis it covers the pixels from
  \<open>pixel - width / 2\<close> to \<open>pixel + width / 2\<close>. On a horizontal axis later ticks lie at
  larger pixels, on a vertical axis at smaller ones. \<open>apart\<close> says that the extent of an
  earlier label ends before the extent of a later one starts; \<open>no_overlap\<close> says so of
  every two labels of a list.
\<close>

fun apart :: "Orientation \<Rightarrow> rat \<times> rat \<Rightarrow> rat \<times> rat \<Rightarrow> bool" where
  "apart horizontal a b = (fst a + snd a / 2 < fst b - snd b / 2)"
| "apart vertical a b = (fst b + snd b / 2 < fst a - snd a / 2)"

fun no_overlap :: "Orientation \<Rightarrow> (rat \<times> rat) list \<Rightarrow> bool" where
  "no_overlap ori [] = True"
| "no_overlap ori (a # rest) = (list_all (apart ori a) rest \<and> no_overlap ori rest)"

section \<open>Sample collaborators\<close>

text \<open>
  Collaborators and a geometry for concrete runs: month keys are shown as they are, a
  Date is rendered as its time value, a text is 8 pixels wide for each character and 2
  more, and the axis is horizontal with one pixel per second.
\<close>

definition sampleCollaborators :: Collaborators where
  "sampleCollaborators =
     \<lparr>loc = (\<lambda>key. key),
      toLocaleDateString = (\<lambda>d. case d of None \<Rightarrow> ''Invalid Date'' | Some t \<Rightarrow> string_of_int t),
      textExtentOnCanvas = (\<lambda>text. 8 * of_nat (length text) + 2)\<rparr>"

definition sampleGeometry :: "rat \<Rightarrow> rat \<Rightarrow> AxisGeometry" where
  "sampleGeometry lower upper =
     \<lparr>lowerBound = lower, upperBound = upper, pixelMin = 0, pixelMax = 400,
      orientation = horizontal, dataToCoordinate = (\<lambda>v. v)\<rparr>"

text \<open>
  A horizontal axis of one pixel for four seconds, whose pixels are counted from the
  lower bound.
\<close>

definition sampleGeometryQuarter :: "rat \<Rightarrow> rat \<Rightarrow> AxisGeometry" where
  "sampleGeometryQuarter lower upper =
     \<lparr>lowerBound = lower, upperBound = upper, pixelMin = 0, pixelMax = (upper - lower) / 4,
      orientation = horizontal, dataToCoordinate = (\<lambda>v. (v - lower) / 4)\<rparr>"

section \<open>Facts about Number arithmetic\<close>

subsection \<open>The binary exponent\<close>

lemma binaryExponent_bounds:
  assumes "0 < x"
  shows "power_int 2 (binaryExponent x) \<le> x \<and> x < power_int 2 (binaryExponent x + 1)"
proof (cases "1 \<le> x")
  case True
  define n where "n = \<lfloor>x\<rfloor>"
  define b where "b = bitlen n"
  have n1: "1 \<le> n" using True by (simp add: n_def)
  then have bb: "2 ^ nat (b - 1) \<le> n \<and> n < 2 ^ nat b"
    unfolding b_def using bitlen_bounds [of n] by simp
  have b1: "1 \<le> b"
    using n1 bitlen_eq_zero_iff [of n] bitlen_nonneg [of n] unfolding b_def by linarith
  have e: "binaryExponent x = b - 1" using True by (simp add: binaryExponent_def n_def b_def)
  have nx: "of_int n \<le> x" "x < of_int n + 1"
    using floor_correct [of x] by (simp_all add: n_def)
  have lo: "(2::rat) ^ nat (b - 1) \<le> of_int n"
    using bb by simp
  have "n + 1 \<le> 2 ^ nat b" using bb by simp
  then have "of_int (n + 1) \<le> (2::rat) ^ nat b"
    by (simp only: of_int_le_numeral_power_cancel_iff)
  then have hi: "of_int n + 1 \<le> (2::rat) ^ nat b" by simp
  have p1: "power_int (2::rat) (b - 1) = 2 ^ nat (b - 1)"
    using b1 by (simp add: power_int_def)
  have p2: "power_int (2::rat) (b - 1 + 1) = 2 ^ nat b"
    using b1 by (simp add: power_int_def)
  show ?thesis unfolding e p1 p2 using lo hi nx by linarith
next
  case False
  define y where "y = 1 / x"
  define n where "n = \<lceil>y\<rceil> - 1"
  define b where "b = bitlen n"
  have y1: "1 < y" using False assms by (simp add: y_def)
  then have "2 \<le> \<lceil>y\<rceil>" by (simp add: le_ceiling_iff) 
  then have n1: "1 \<le> n" by (simp add: n_def)
  then have bb: "2 ^ nat (b - 1) \<le> n \<and> n < 2 ^ nat b"
    unfolding b_def using bitlen_bounds [of n] by simp
  have b1: "1 \<le> b"
    using n1 bitlen_eq_zero_iff [of n] bitlen_nonneg [of n] unfolding b_def by linarith
  have e: "binaryExponent x = - b" using False by (simp add: binaryExponent_def n_def b_def y_def)
  have ny: "of_int n < y" "y \<le> of_int n + 1"
    using ceiling_correct [of y] by (simp_all add: n_def)
  have lo: "(2::rat) ^ nat (b - 1) \<le> of_int n"
    using bb by simp
  have "n + 1 \<le> 2 ^ nat b" using bb by simp
  then have "of_int (n + 1) \<le> (2::rat) ^ nat b"
    by (simp only: of_int_le_numeral_power_cancel_iff)
  then have hi: "of_int n + 1 \<le> (2::rat) ^ nat b" by simp
  have ylo: "(2::rat) ^ nat (b - 1) < y" and yhi: "y \<le> (2::rat) ^ nat b"
    using lo hi ny by linarith+
  have x: "x = 1 / y" using assms by (simp add: y_def)
  have p1: "power_int (2::rat) (- b) = 1 / 2 ^ nat b"
    using b1 by (simp add: power_int_def field_simps)
  have p2: "power_int (2::rat) (- b + 1) = 1 / 2 ^ nat (b - 1)"
    using b1 by (cases "b = 1") (simp_all add: power_int_def field_simps nat_diff_distrib)
  have "1 / 2 ^ nat b \<le> 1 / y" using yhi y1 by (simp add: frac_le)
  then have a: "1 / 2 ^ nat b \<le> x" by (simp only: x)
  have "1 / y < 1 / 2 ^ nat (b - 1)" using ylo by (simp add: frac_less2)
  then have c: "x < 1 / 2 ^ nat (b - 1)" by (simp only: x)
  show ?thesis unfolding e p1 p2 using a c by simp
qed

lemma binaryExponent_less:
  assumes "0 < x" and "x < power_int 2 k"
  shows "binaryExponent x < k"
proof (rule ccontr)
  assume "\<not> binaryExponent x < k"
  then have "power_int (2::rat) k \<le> power_int 2 (binaryExponent x)"
    by (intro power_int_increasing) simp_all
  then show False using binaryExponent_bounds [OF assms(1)] assms(2) by linarith
qed

lemma binaryExponent_ge:
  assumes "0 < x" and "power_int 2 k \<le> x"
  shows "k \<le> binaryExponent x"
proof (rule ccontr)
  assume "\<not> k \<le> binaryExponent x"
  then have "power_int (2::rat) (binaryExponent x + 1) \<le> power_int 2 k"
    by (intro power_int_increasing) simp_all
  then show False using binaryExponent_bounds [OF assms(1)] assms(2) by linarith
qed

lemma binaryExponent_unique:
  assumes "0 < x" and "power_int 2 k \<le> x" and "x < power_int 2 (k + 1)"
  shows "binaryExponent x = k"
  using binaryExponent_less [OF assms(1) assms(3)] binaryExponent_ge [OF assms(1) assms(2)]
  by simp

lemma binaryExponent_mono:
  assumes "0 < x" and "x \<le> y"
  shows "binaryExponent x \<le> binaryExponent y"
proof -
  have "0 < y" using assms by simp
  have "power_int 2 (binaryExponent x) \<le> y"
    using binaryExponent_bounds [OF assms(1)] assms(2) by linarith
  then show ?thesis by (rule binaryExponent_ge [OF \<open>0 < y\<close>])
qed

subsection \<open>Rounding to the nearest integer\<close>

lemma roundHalfEven_bounds:
  "y - 1 / 2 \<le> of_int (roundHalfEven y) \<and> of_int (roundHalfEven y) \<le> y + 1 / 2"
proof -
  define f where "f = \<lfloor>y\<rfloor>"
  have "of_int f \<le> y" "y < of_int f + 1"
    using floor_correct [of y] by (simp_all add: f_def)
  then show ?thesis
    unfolding roundHalfEven_def Let_def f_def [symmetric]
    by (simp split: if_splits)
qed

lemma roundHalfEven_of_int: "roundHalfEven (of_int n) = n"
  by (simp add: roundHalfEven_def)

lemma roundHalfEven_mono:
  assumes "y \<le> z"
  shows "roundHalfEven y \<le> roundHalfEven z"
proof (rule ccontr)
  assume "\<not> roundHalfEven y \<le> roundHalfEven z"
  then have "roundHalfEven z + 1 \<le> roundHalfEven y" by simp
  then have "(of_int (roundHalfEven z + 1) :: rat) \<le> of_int (roundHalfEven y)"
    by (simp only: of_int_le_iff)
  then have "(of_int (roundHalfEven z) :: rat) + 1 \<le> of_int (roundHalfEven y)" by simp
  then have "z \<le> y"
    using roundHalfEven_bounds [of y] roundHalfEven_bounds [of z] by linarith
  then have "y = z" using assms by simp
  then show False using \<open>\<not> roundHalfEven y \<le> roundHalfEven z\<close> by simp
qed

subsection \<open>Rounding to the nearest double is monotone\<close>

lemma roundToDouble_minus: "roundToDouble (- x) = - roundToDouble x"
  by (simp add: roundToDouble_def Let_def)

lemma roundToDouble_pos:
  assumes "0 < x" and "u = power_int 2 (max (binaryExponent x) (- 1022) - 52)"
  shows "roundToDouble x = of_int (roundHalfEven (x / u)) * u"
  using assms by (simp add: roundToDouble_def Let_def)

lemma power_int_two_shift:
  "power_int (2::rat) (e + 1) = 2 ^ 53 * power_int 2 (e - 52)"
  "power_int (2::rat) e = 2 ^ 52 * power_int 2 (e - 52)"
proof -
  have "power_int (2::rat) (e - 52 + 53) = power_int 2 (e - 52) * power_int 2 53"
    by (rule power_int_add) simp
  moreover have "e - 52 + 53 = e + 1" by simp
  ultimately show "power_int (2::rat) (e + 1) = 2 ^ 53 * power_int 2 (e - 52)"
    by (simp only: power_int_numeral mult.commute)
  have "power_int (2::rat) (e - 52 + 52) = power_int 2 (e - 52) * power_int 2 52"
    by (rule power_int_add) simp
  moreover have "e - 52 + 52 = e" by simp
  ultimately show "power_int (2::rat) e = 2 ^ 52 * power_int 2 (e - 52)"
    by (simp only: power_int_numeral mult.commute)
qed

lemma roundToDouble_pos_bounds:
  assumes "0 < x" and "e = max (binaryExponent x) (- 1022)"
  shows "0 \<le> roundToDouble x"
    and "roundToDouble x \<le> power_int 2 (e + 1)"
    and "- 1022 \<le> binaryExponent x \<Longrightarrow> power_int 2 e \<le> roundToDouble x"
proof -
  define u where "u = power_int (2::rat) (e - 52)"
  have u0: "0 < u" by (simp add: u_def)
  have up: "power_int 2 (e + 1) = 2 ^ 53 * u"
    unfolding u_def by (rule power_int_two_shift(1))
  have lo: "power_int 2 e = 2 ^ 52 * u"
    unfolding u_def by (rule power_int_two_shift(2))
  have fl: "roundToDouble x = of_int (roundHalfEven (x / u)) * u"
    using assms by (intro roundToDouble_pos) (simp_all add: u_def)
  have "0 \<le> x / u" using assms(1) u0 by simp
  then have "roundHalfEven (of_int 0) \<le> roundHalfEven (x / u)"
    by (intro roundHalfEven_mono) simp
  then have r0: "0 \<le> roundHalfEven (x / u)" by (simp only: roundHalfEven_of_int)
  then show "0 \<le> roundToDouble x" using u0 by (simp add: fl)
  have "x < power_int 2 (binaryExponent x + 1)"
    using binaryExponent_bounds [OF assms(1)] by simp
  also have "\<dots> \<le> power_int 2 (e + 1)"
    by (intro power_int_increasing) (simp_all add: assms(2))
  finally have "x < 2 ^ 53 * u" by (simp only: up)
  then have "x / u \<le> of_int (2 ^ 53)" using u0 by (simp add: field_simps)
  then have "roundHalfEven (x / u) \<le> roundHalfEven (of_int (2 ^ 53))"
    by (rule roundHalfEven_mono)
  then have "roundHalfEven (x / u) \<le> 2 ^ 53" by (simp only: roundHalfEven_of_int)
  then have "(of_int (roundHalfEven (x / u)) :: rat) \<le> of_int (2 ^ 53)"
    by (simp only: of_int_le_iff)
  then have "of_int (roundHalfEven (x / u)) * u \<le> 2 ^ 53 * u"
    using u0 by simp
  then show "roundToDouble x \<le> power_int 2 (e + 1)"
    by (simp only: fl up)
  show "power_int 2 e \<le> roundToDouble x" if "- 1022 \<le> binaryExponent x"
  proof -
    have "e = binaryExponent x" using that assms(2) by simp
    then have "power_int 2 e \<le> x" using binaryExponent_bounds [OF assms(1)] by simp
    then have "2 ^ 52 * u \<le> x" by (simp only: lo)
    then have "of_int (2 ^ 52) \<le> x / u" using u0 by (simp add: field_simps)
    then have "roundHalfEven (of_int (2 ^ 52)) \<le> roundHalfEven (x / u)"
      by (rule roundHalfEven_mono)
    then have "2 ^ 52 \<le> roundHalfEven (x / u)" by (simp only: roundHalfEven_of_int)
    then have "(of_int (2 ^ 52) :: rat) \<le> of_int (roundHalfEven (x / u))"
      by (simp only: of_int_le_iff)
    then have "2 ^ 52 * u \<le> of_int (roundHalfEven (x / u)) * u"
      using u0 by simp
    then show ?thesis by (simp only: fl lo)
  qed
qed

lemma roundToDouble_mono_pos:
  assumes "0 < x" and "x \<le> y"
  shows "roundToDouble x \<le> roundToDouble y"
proof -
  define ex where "ex = max (binaryExponent x) (- 1022)"
  define ey where "ey = max (binaryExponent y) (- 1022)"
  have y0: "0 < y" using assms by simp
  have le: "ex \<le> ey"
    using binaryExponent_mono [OF assms] by (simp add: ex_def ey_def)
  show ?thesis
  proof (cases "ex = ey")
    case True
    define u where "u = power_int (2::rat) (ex - 52)"
    have u0: "0 < u" by (simp add: u_def)
    have fx: "roundToDouble x = of_int (roundHalfEven (x / u)) * u"
      using assms(1) by (intro roundToDouble_pos) (simp_all add: u_def ex_def)
    have fy: "roundToDouble y = of_int (roundHalfEven (y / u)) * u"
      using y0 True by (intro roundToDouble_pos) (simp_all add: u_def ey_def)
    have "x / u \<le> y / u" using assms(2) u0 by (simp add: divide_right_mono)
    then have "roundHalfEven (x / u) \<le> roundHalfEven (y / u)" by (rule roundHalfEven_mono)
    then have "(of_int (roundHalfEven (x / u)) :: rat) \<le> of_int (roundHalfEven (y / u))"
      by (simp only: of_int_le_iff)
    then show ?thesis using u0 by (simp add: fx fy)
  next
    case False
    then have lt: "ex + 1 \<le> ey" using le by simp
    then have "- 1022 < ey" by (simp add: ex_def)
    then have bey: "- 1022 \<le> binaryExponent y" by (simp add: ey_def)
    have "roundToDouble x \<le> power_int 2 (ex + 1)"
      using roundToDouble_pos_bounds(2) [OF assms(1) ex_def] .
    also have "\<dots> \<le> power_int 2 ey"
      using lt by (intro power_int_increasing) simp_all
    also have "\<dots> \<le> roundToDouble y"
      using roundToDouble_pos_bounds(3) [OF y0 ey_def bey] .
    finally show ?thesis .
  qed
qed

lemma roundToDouble_zero: "roundToDouble 0 = 0"
  by (simp add: roundToDouble_def)

lemma roundToDouble_mono:
  assumes "x \<le> y"
  shows "roundToDouble x \<le> roundToDouble y"
proof -
  consider "0 < x" | "y < 0" | "x \<le> 0" "0 \<le> y" by linarith
  then show ?thesis
  proof cases
    case 1
    then show ?thesis using assms by (rule roundToDouble_mono_pos)
  next
    case 2
    then have "0 < - y" "- y \<le> - x" using assms by simp_all
    then have "roundToDouble (- y) \<le> roundToDouble (- x)" by (rule roundToDouble_mono_pos)
    then show ?thesis by (simp add: roundToDouble_minus)
  next
    case 3
    have "roundToDouble x \<le> 0"
    proof (cases "x = 0")
      case True
      then show ?thesis by (simp add: roundToDouble_zero)
    next
      case False
      then have "0 < - x" using 3 by simp
      then have "0 \<le> roundToDouble (- x)" by (rule roundToDouble_pos_bounds(1)) simp
      then show ?thesis by (simp add: roundToDouble_minus)
    qed
    moreover have "0 \<le> roundToDouble y"
    proof (cases "y = 0")
      case True
      then show ?thesis by (simp add: roundToDouble_zero)
    next
      case False
      then have "0 < y" using 3 by simp
      then show ?thesis by (rule roundToDouble_pos_bounds(1)) simp
    qed
    ultimately show ?thesis by linarith
  qed
qed

subsection \<open>Doubles are left as they are\<close>

text \<open>
  A multiple of \<open>2 ^ - j\<close> whose quotient by it is below \<open>2 ^ 53\<close> in magnitude is a double.
\<close>

lemma roundToDouble_exact_pos:
  assumes "0 < x" and "x * 2 ^ j \<in> \<int>" and "x * 2 ^ j < 2 ^ 53" and "j \<le> 1022"
  shows "roundToDouble x = x"
proof -
  obtain m where m: "x * 2 ^ j = of_int m" using assms(2) by (rule Ints_cases)
  have "0 < x * 2 ^ j" using assms(1) by simp
  then have "(0::rat) < of_int m" by (simp only: m)
  then have "(1::rat) \<le> of_int m" by simp
  then have "1 \<le> x * 2 ^ j" by (simp only: m)
  then have "1 / 2 ^ j \<le> x" by (simp add: field_simps)
  moreover have "power_int (2::rat) (- int j) = 1 / 2 ^ j"
    by (simp add: power_int_minus_divide)
  ultimately have "power_int 2 (- int j) \<le> x" by simp
  then have lo: "- int j \<le> binaryExponent x" by (rule binaryExponent_ge [OF assms(1)])
  define b where "b = binaryExponent x"
  have e: "max (binaryExponent x) (- 1022) = b" using lo assms(4) by (simp add: b_def)
  have "x < 2 ^ 53 / 2 ^ j" using assms(3) by (simp add: field_simps)
  moreover have "power_int (2::rat) (53 - int j) = 2 ^ 53 / 2 ^ j"
    using power_int_diff [of "2::rat" 53 "int j"] by simp
  ultimately have "x < power_int 2 (53 - int j)" by simp
  then have hi: "b < 53 - int j" unfolding b_def by (rule binaryExponent_less [OF assms(1)])
  define k where "k = nat (52 - b - int j)"
  define u where "u = power_int (2::rat) (b - 52)"
  have u0: "0 < u" by (simp add: u_def)
  have "power_int (2::rat) (b - 52 + int (j + k)) = power_int 2 (b - 52) * power_int 2 (int (j + k))"
    by (rule power_int_add) simp
  moreover have "b - 52 + int (j + k) = 0" using hi by (simp add: k_def)
  ultimately have inv: "u * 2 ^ (j + k) = 1"
    by (simp only: u_def power_int_of_nat power_int_0_right)
  then have "x / u = x * 2 ^ (j + k)" using u0 by (simp add: field_simps)
  also have "\<dots> = of_int m * 2 ^ k" by (simp add: power_add m [symmetric])
  also have "\<dots> = of_int (m * 2 ^ k)" by simp
  finally have q: "x / u = of_int (m * 2 ^ k)" .
  have "roundToDouble x = of_int (roundHalfEven (x / u)) * u"
    using assms(1) by (intro roundToDouble_pos) (simp_all only: e u_def)
  also have "\<dots> = (x / u) * u" by (simp only: q roundHalfEven_of_int)
  also have "\<dots> = x" using u0 by simp
  finally show ?thesis .
qed

lemma roundToDouble_exact:
  assumes "x * 2 ^ j \<in> \<int>" and "\<bar>x\<bar> * 2 ^ j < 2 ^ 53" and "j \<le> 1022"
  shows "roundToDouble x = x"
proof -
  consider "x = 0" | "0 < x" | "x < 0" by linarith
  then show ?thesis
  proof cases
    case 1
    then show ?thesis by (simp add: roundToDouble_zero)
  next
    case 2
    then show ?thesis using assms by (intro roundToDouble_exact_pos [of x j]) simp_all
  next
    case 3
    have "- x * 2 ^ j \<in> \<int>" using assms(1) Ints_minus [of "x * 2 ^ j"] by simp
    then have "roundToDouble (- x) = - x"
      using 3 assms by (intro roundToDouble_exact_pos [of "- x" j]) simp_all
    then show ?thesis by (simp add: roundToDouble_minus)
  qed
qed

lemma roundToDouble_whole:
  assumes "x \<in> \<int>" and "\<bar>x\<bar> < 9007199254740992"
  shows "roundToDouble x = x"
  using assms roundToDouble_exact [of x 0] by simp

lemma roundToDouble_eighths:
  assumes "x * 8 \<in> \<int>" and "\<bar>x\<bar> < 1125899906842624"
  shows "roundToDouble x = x"
  using assms roundToDouble_exact [of x 3] by simp

text \<open>An operation whose exact result is a multiple of 1 / 8 below \<open>2 ^ 50\<close> is exact.\<close>

lemma number_exact:
  "(x + y) * 8 \<in> \<int> \<Longrightarrow> \<bar>x + y\<bar> < 1125899906842624 \<Longrightarrow> number_add x y = x + y"
  "(x - y) * 8 \<in> \<int> \<Longrightarrow> \<bar>x - y\<bar> < 1125899906842624 \<Longrightarrow> number_sub x y = x - y"
  "(x * y) * 8 \<in> \<int> \<Longrightarrow> \<bar>x * y\<bar> < 1125899906842624 \<Longrightarrow> number_mul x y = x * y"
  "(x / y) * 8 \<in> \<int> \<Longrightarrow> \<bar>x / y\<bar> < 1125899906842624 \<Longrightarrow> number_div x y = x / y"
  by (simp_all add: number_defs roundToDouble_eighths)

text \<open>The rounding of a number whose binary exponent is known.\<close>

lemma roundToDouble_at:
  assumes "0 < x" and "power_int 2 k \<le> x" and "x < power_int 2 (k + 1)" and "- 1022 \<le> k"
  shows "roundToDouble x = of_int (roundHalfEven (x / power_int 2 (k - 52))) * power_int 2 (k - 52)"
proof -
  have "binaryExponent x = k" using assms(1-3) by (rule binaryExponent_unique)
  then show ?thesis using assms(1,4) by (intro roundToDouble_pos) simp_all
qed

lemma floor_numeral_quotient:
  "\<lfloor>(numeral a :: rat) / numeral b\<rfloor> = numeral a div numeral b"
  using floor_divide_of_int_eq [of "numeral a" "numeral b", where ?'a = rat] by simp

text \<open>Comparing a rounded number with a whole number below \<open>2 ^ 53\<close>.\<close>

lemma whole_le_roundToDouble:
  assumes "T \<in> \<int>" and "\<bar>T\<bar> < 9007199254740992" and "T \<le> x"
  shows "T \<le> roundToDouble x"
  using roundToDouble_mono [OF assms(3)] roundToDouble_whole [OF assms(1,2)] by simp

lemma roundToDouble_le_whole:
  assumes "T \<in> \<int>" and "\<bar>T\<bar> < 9007199254740992" and "x \<le> T"
  shows "roundToDouble x \<le> T"
  using roundToDouble_mono [OF assms(3)] roundToDouble_whole [OF assms(1,2)] by simp

lemma whole_roundToDouble_less:
  assumes "T \<in> \<int>" and "\<bar>T\<bar> < 9007199254740991" and "x \<in> \<int>" and "x < T"
  shows "roundToDouble x < T"
proof -
  obtain a where a: "T = of_int a" using assms(1) by (rule Ints_cases)
  obtain b where b: "x = of_int b" using assms(3) by (rule Ints_cases)
  have "b < a" using assms(4) by (simp add: a b)
  then have "b \<le> a - 1" by simp
  then have "x \<le> T - 1" by (simp add: a b flip: of_int_diff)
  moreover have "T - 1 \<in> \<int>" using assms(1) by simp
  moreover have "\<bar>T - 1\<bar> < 9007199254740992" using assms(2) by linarith
  ultimately have "roundToDouble x \<le> T - 1" by (intro roundToDouble_le_whole)
  then show ?thesis by simp
qed

lemma threshold_compare:
  assumes "T \<in> \<int>" and "\<bar>T\<bar> < 9007199254740991"
    and "x \<in> \<int> \<or> (roundToDouble x = T \<longrightarrow> roundToDouble x \<le> x)"
  shows "roundToDouble x < T \<longleftrightarrow> x < T"
proof
  assume "roundToDouble x < T"
  show "x < T"
  proof (rule ccontr)
    assume "\<not> x < T"
    then have "T \<le> roundToDouble x" using assms(1,2) by (intro whole_le_roundToDouble) simp_all
    then show False using \<open>roundToDouble x < T\<close> by simp
  qed
next
  assume lt: "x < T"
  from assms(3) show "roundToDouble x < T"
  proof
    assume "x \<in> \<int>"
    then show ?thesis using assms(1,2) lt by (intro whole_roundToDouble_less)
  next
    assume r: "roundToDouble x = T \<longrightarrow> roundToDouble x \<le> x"
    have "roundToDouble x \<le> T" using assms(1,2) lt by (intro roundToDouble_le_whole) simp_all
    then show ?thesis using r lt by (cases "roundToDouble x = T") simp_all
  qed
qed

section \<open>The level resolver: threshold table, coarseness, translation\<close>

lemma determineLevels_table:
  assumes "s = iMaxDate - iMinDate"
    and "(iMinDate \<in> \<int> \<and> iMaxDate \<in> \<int>)
         \<or> (number_sub iMaxDate iMinDate
               \<in> {3 * 60000, 3 * 3600000, 3 * 86400000, 3 * 30 * 86400000, 3 * 365 * 86400000}
             \<longrightarrow> number_sub iMaxDate iMinDate \<le> s)"
  shows "determineLevels iMinDate iMaxDate =
     (if s < 3 * 60000 then \<lparr>outerLevel = eDay, innerLevel = eSecond\<rparr>
      else if s < 3 * 3600000 then \<lparr>outerLevel = eDay, innerLevel = eMinute\<rparr>
      else if s < 3 * 86400000 then \<lparr>outerLevel = eDay, innerLevel = eHour\<rparr>
      else if s < 3 * 30 * 86400000 then \<lparr>outerLevel = eMonth, innerLevel = eDay\<rparr>
      else if s < 3 * 365 * 86400000 then \<lparr>outerLevel = eYear, innerLevel = eMonth\<rparr>
      else \<lparr>outerLevel = eYear, innerLevel = eYear\<rparr>)"
proof -
  have i: "s \<in> \<int>" if "iMinDate \<in> \<int> \<and> iMaxDate \<in> \<int>"
    using that by (simp add: assms(1))
  have h: "s \<in> \<int>
      \<or> (roundToDouble s
            \<in> {3 * 60000, 3 * 3600000, 3 * 86400000, 3 * 30 * 86400000, 3 * 365 * 86400000}
          \<longrightarrow> roundToDouble s \<le> s)"
    using assms(2) i unfolding number_sub_def assms(1) [symmetric] by blast
  have c: "s \<in> \<int> \<or> (roundToDouble s = T \<longrightarrow> roundToDouble s \<le> s)"
    if "T \<in> {180000, 10800000, 259200000, 7776000000, 94608000000}" for T
    using h that by auto
  have "roundToDouble s < 180000 \<longleftrightarrow> s < 180000"
    by (rule threshold_compare [OF _ _ c]) simp_all
  moreover have "roundToDouble s < 10800000 \<longleftrightarrow> s < 10800000"
    by (rule threshold_compare [OF _ _ c]) simp_all
  moreover have "roundToDouble s < 259200000 \<longleftrightarrow> s < 259200000"
    by (rule threshold_compare [OF _ _ c]) simp_all
  moreover have "roundToDouble s < 7776000000 \<longleftrightarrow> s < 7776000000"
    by (rule threshold_compare [OF _ _ c]) simp_all
  moreover have "roundToDouble s < 94608000000 \<longleftrightarrow> s < 94608000000"
    by (rule threshold_compare [OF _ _ c]) simp_all
  ultimately show ?thesis
    by (simp add: determineLevels_def Let_def kUnit_defs number_sub_def assms(1))
qed

text \<open>
  C2, as stated, fails: the span is computed as a double. For the bounds \<open>2 ^ - 40\<close> and
  180000 the exact span is below the first threshold 3 * 60000, but the nearest double
  of \<open>180000 - 2 ^ - 40\<close> is 180000, and the pair returned is (day, minute).
\<close>

theorem determineLevels_threshold_table_counterexample:
  "(1 / 2 ^ 40 :: rat) \<le> 180000 \<and> (180000 - 1 / 2 ^ 40 :: rat) < 3 * 60000
   \<and> determineLevels (1 / 2 ^ 40) 180000 = \<lparr>outerLevel = eDay, innerLevel = eMinute\<rparr>"
proof -
  have "roundToDouble (180000 - 1 / 2 ^ 40) = 180000"
    using roundToDouble_at [of "180000 - 1 / 2 ^ 40" 17]
    by (simp add: roundHalfEven_def Let_def floor_numeral_quotient)
  then show ?thesis by (simp add: determineLevels_def Let_def kUnit_defs number_sub_def)
qed

text \<open>
  C2, amended. For bounds \<open>iMinDate \<le> iMaxDate\<close> with exact span
  \<open>s = iMaxDate - iMinDate\<close> in milliseconds, \<open>determineLevels\<close> returns the pair of the
  threshold table for \<open>s\<close> ((day, second) below 3 * 60000, (day, minute) below
  3 * 3600000, (day, hour) below 3 * 86400000, (month, day) below 3 * 30 * 86400000,
  (year, month) below 3 * 365 * 86400000, and (year, year) from there on) whenever both
  bounds are whole numbers of milliseconds, or the span as the code computes it is not a
  threshold that lies above \<open>s\<close>.
\<close>

theorem determineLevels_threshold_table:
  assumes "iMinDate \<le> iMaxDate" and "s = iMaxDate - iMinDate"
    and "(iMinDate \<in> \<int> \<and> iMaxDate \<in> \<int>)
         \<or> (number_sub iMaxDate iMinDate
               \<in> {3 * 60000, 3 * 3600000, 3 * 86400000, 3 * 30 * 86400000, 3 * 365 * 86400000}
             \<longrightarrow> number_sub iMaxDate iMinDate \<le> s)"
  shows "determineLevels iMinDate iMaxDate =
     (if s < 3 * 60000 then \<lparr>outerLevel = eDay, innerLevel = eSecond\<rparr>
      else if s < 3 * 3600000 then \<lparr>outerLevel = eDay, innerLevel = eMinute\<rparr>
      else if s < 3 * 86400000 then \<lparr>outerLevel = eDay, innerLevel = eHour\<rparr>
      else if s < 3 * 30 * 86400000 then \<lparr>outerLevel = eMonth, innerLevel = eDay\<rparr>
      else if s < 3 * 365 * 86400000 then \<lparr>outerLevel = eYear, innerLevel = eMonth\<rparr>
      else \<lparr>outerLevel = eYear, innerLevel = eYear\<rparr>)"
  using assms(2,3) by (rule determineLevels_table)

theorem determineLevels_threshold_table_witness:
  "(1672531200000::rat) \<le> 1672531290000
   \<and> (1672531200000::rat) \<in> \<int> \<and> (1672531290000::rat) \<in> \<int>
   \<and> determineLevels 1672531200000 1672531290000 = \<lparr>outerLevel = eDay, innerLevel = eSecond\<rparr>"
  using determineLevels_threshold_table [of 1672531200000 1672531290000 90000] by simp

text \<open>
  C9. The outer level chosen by \<open>determineLevels\<close> is never finer than the inner one, and
  the choice is monotonic in the span: for spans \<open>s1 \<le> s2\<close>, the outer and the inner
  level chosen for \<open>s2\<close> are each at least as coarse as those chosen for \<open>s1\<close>.
\<close>

theorem determineLevels_coarseness_monotone:
  assumes "min1 \<le> max1" and "min2 \<le> max2" and "max1 - min1 \<le> max2 - min2"
  shows "level_code (innerLevel (determineLevels min1 max1))
           \<le> level_code (outerLevel (determineLevels min1 max1))
       \<and> level_code (outerLevel (determineLevels min1 max1))
           \<le> level_code (outerLevel (determineLevels min2 max2))
       \<and> level_code (innerLevel (determineLevels min1 max1))
           \<le> level_code (innerLevel (determineLevels min2 max2))"
proof -
  define d1 where "d1 = number_sub max1 min1"
  define d2 where "d2 = number_sub max2 min2"
  have "d1 \<le> d2"
    unfolding d1_def d2_def number_sub_def using assms(3) by (rule roundToDouble_mono)
  then show ?thesis
    unfolding determineLevels_def d1_def [symmetric] d2_def [symmetric]
    by (auto simp add: Let_def kUnit_defs)
qed

theorem determineLevels_coarseness_monotone_witness:
  "(0::rat) \<le> 90000 \<and> (0::rat) \<le> 500000000 \<and> (90000::rat) - 0 \<le> 500000000 - 0
   \<and> level_code (innerLevel (determineLevels 0 90000))
        \<le> level_code (outerLevel (determineLevels 0 90000))
   \<and> level_code (outerLevel (determineLevels 0 90000))
        \<le> level_code (outerLevel (determineLevels 0 500000000))
   \<and> level_code (innerLevel (determineLevels 0 90000))
        \<le> level_code (innerLevel (determineLevels 0 500000000))"
  using determineLevels_coarseness_monotone [of 0 90000 0 500000000] by simp

lemma determineLevels_shift:
  assumes "number_add iMinDate d = iMinDate + d" and "number_add iMaxDate d = iMaxDate + d"
  shows "determineLevels (number_add iMinDate d) (number_add iMaxDate d)
       = determineLevels iMinDate iMaxDate"
  by (simp add: determineLevels_def number_sub_def assms)

text \<open>
  C10, as stated, fails: the shifted bounds and the span are computed as doubles. The
  bounds 1 / 2 and 180000 give (day, second), the span being 179999.5. Shifted by
  8000000000000000, the lower bound is rounded to 8000000000000000 and the span becomes
  180000: the pair is (day, minute).
\<close>

theorem determineLevels_translation_invariant_counterexample:
  "determineLevels (number_add (1 / 2) 8000000000000000) (number_add 180000 8000000000000000)
     = \<lparr>outerLevel = eDay, innerLevel = eMinute\<rparr>
   \<and> determineLevels (1 / 2) 180000 = \<lparr>outerLevel = eDay, innerLevel = eSecond\<rparr>"
proof -
  have "roundToDouble (1 / 2 + 8000000000000000) = 8000000000000000"
    using roundToDouble_at [of "1 / 2 + 8000000000000000" 52]
    by (simp add: roundHalfEven_def Let_def floor_numeral_quotient)
  then show ?thesis
    by (simp add: determineLevels_def Let_def kUnit_defs number_defs roundToDouble_whole
        roundToDouble_eighths)
qed

text \<open>
  C10, amended. \<open>determineLevels\<close> returns the same pair for the bounds shifted by an
  offset \<open>d\<close> as for the bounds themselves whenever the two shifted bounds are computed
  exactly and are finite (below \<open>2 ^ 1024\<close> in magnitude); they are whenever both are
  whole numbers of milliseconds below \<open>2 ^ 53\<close> in magnitude.
\<close>

theorem determineLevels_translation_invariant:
  assumes "(iMinDate + d \<in> \<int> \<and> iMaxDate + d \<in> \<int>
            \<and> \<bar>iMinDate + d\<bar> < 9007199254740992 \<and> \<bar>iMaxDate + d\<bar> < 9007199254740992)
         \<or> (number_add iMinDate d = iMinDate + d \<and> number_add iMaxDate d = iMaxDate + d
             \<and> \<bar>iMinDate + d\<bar> < 2 ^ 1024 \<and> \<bar>iMaxDate + d\<bar> < 2 ^ 1024)"
  shows "determineLevels (number_add iMinDate d) (number_add iMaxDate d)
       = determineLevels iMinDate iMaxDate"
proof -
  have "number_add iMinDate d = iMinDate + d" and "number_add iMaxDate d = iMaxDate + d"
    using assms by (auto simp add: number_add_def roundToDouble_whole)
  then show ?thesis by (rule determineLevels_shift)
qed

theorem determineLevels_translation_invariant_witness:
  "(1672531200000 + 86400000 :: rat) \<in> \<int> \<and> (1672531290000 + 86400000 :: rat) \<in> \<int>
   \<and> \<bar>1672531200000 + 86400000 :: rat\<bar> < 9007199254740992
   \<and> \<bar>1672531290000 + 86400000 :: rat\<bar> < 9007199254740992
   \<and> determineLevels (number_add 1672531200000 86400000) (number_add 1672531290000 86400000)
       = determineLevels 1672531200000 1672531290000"
  using determineLevels_translation_invariant [of 1672531200000 86400000 1672531290000] by simp

section \<open>Facts about the calendar\<close>

subsection \<open>Years\<close>

lemma div_bounds:
  fixes n x :: int
  assumes "0 < n"
  shows "n * (x div n) \<le> x \<and> x \<le> n * (x div n) + (n - 1)"
proof -
  have "n * (x div n) + x mod n = x" by simp
  moreover have "0 \<le> x mod n" "x mod n < n" using assms by simp_all
  ultimately show ?thesis by linarith
qed

lemma DayFromYear_bounds:
  "146097 * (y - 1970) - 506 \<le> 400 * DayFromYear y"
  "400 * DayFromYear y \<le> 146097 * (y - 1970) + 589"
proof -
  define a where "a = (y - 1969) div 4"
  define b where "b = (y - 1901) div 100"
  define c where "c = (y - 1601) div 400"
  have a: "4 * a \<le> y - 1969" "y - 1969 \<le> 4 * a + 3"
    using div_bounds [of 4 "y - 1969"] by (simp_all add: a_def)
  have b: "100 * b \<le> y - 1901" "y - 1901 \<le> 100 * b + 99"
    using div_bounds [of 100 "y - 1901"] by (simp_all add: b_def)
  have c: "400 * c \<le> y - 1601" "y - 1601 \<le> 400 * c + 399"
    using div_bounds [of 400 "y - 1601"] by (simp_all add: c_def)
  have f: "DayFromYear y = 365 * (y - 1970) + a - b + c"
    by (simp add: DayFromYear_def a_def b_def c_def)
  show "146097 * (y - 1970) - 506 \<le> 400 * DayFromYear y"
    unfolding f using a(2) b(1) c(2) by (simp add: algebra_simps)
  show "400 * DayFromYear y \<le> 146097 * (y - 1970) + 589"
    unfolding f using a(1) b(2) c(1) by (simp add: algebra_simps)
qed

lemma YearFromDay_range:
  "DayFromYear (YearFromDay d) \<le> d" "d < DayFromYear (YearFromDay d + 1)"
proof -
  define q where "q = (400 * d) div 146097"
  have q: "146097 * q \<le> 400 * d" "400 * d \<le> 146097 * q + 146096"
    using div_bounds [of 146097 "400 * d"] by (simp_all add: q_def)
  have lo: "DayFromYear (1970 + q - 1) \<le> d"
    using DayFromYear_bounds(2) [of "1970 + q - 1"] q(1) by (simp add: algebra_simps)
  have hi: "d < DayFromYear (1970 + q + 2)"
    using DayFromYear_bounds(1) [of "1970 + q + 2"] q(2) by (simp add: algebra_simps)
  have eq: "YearFromDay d =
     (if DayFromYear (1970 + q + 1) \<le> d then 1970 + q + 1
      else if d < DayFromYear (1970 + q) then 1970 + q - 1 else 1970 + q)"
    by (simp add: YearFromDay_def Let_def q_def)
  show "DayFromYear (YearFromDay d) \<le> d"
    unfolding eq using lo by simp
  show "d < DayFromYear (YearFromDay d + 1)"
    unfolding eq using hi by (simp add: add.commute add.left_commute)
qed

lemma div_step:
  fixes n x :: int
  assumes "0 < n"
  shows "(x + 1) div n = x div n + (if (x + 1) mod n = 0 then 1 else 0)"
proof -
  define q where "q = x div n"
  define r where "r = x mod n"
  have x: "x = n * q + r" by (simp add: q_def r_def)
  have r: "0 \<le> r" "r < n" using assms by (simp_all add: r_def)
  show ?thesis
  proof (cases "r + 1 = n")
    case True
    then have "x + 1 = n * (q + 1) + 0" using x by (simp add: algebra_simps)
    then have "(x + 1) div n = q + 1" "(x + 1) mod n = 0"
      using assms int_div_pos_eq [of "x + 1" n "q + 1" 0] int_mod_pos_eq [of "x + 1" n "q + 1" 0]
      by simp_all
    then show ?thesis by (simp add: q_def)
  next
    case False
    then have r1: "0 \<le> r + 1" "r + 1 < n" using r by simp_all
    have "x + 1 = n * q + (r + 1)" using x by simp
    then have "(x + 1) div n = q" "(x + 1) mod n = r + 1"
      using r1 int_div_pos_eq [of "x + 1" n q "r + 1"] int_mod_pos_eq [of "x + 1" n q "r + 1"]
      by simp_all
    then show ?thesis using r by (simp add: q_def)
  qed
qed

lemma mod_shift:
  fixes y n k :: int
  shows "(y - n * k) mod n = y mod n"
  by (metis mod_mult_self2 mult.commute uminus_add_conv_diff add.commute mult_minus_right)

lemma div4_step: "(y - 1968) div 4 = (y - 1969) div 4 + (if y mod 4 = 0 then 1 else 0)" for y :: int
  using div_step [of 4 "y - 1969"] mod_shift [of y 4 492] by simp
lemma div100_step: "(y - 1900) div 100 = (y - 1901) div 100 + (if y mod 100 = 0 then 1 else 0)" for y :: int
  using div_step [of 100 "y - 1901"] mod_shift [of y 100 19] by simp
lemma div400_step: "(y - 1600) div 400 = (y - 1601) div 400 + (if y mod 400 = 0 then 1 else 0)" for y :: int
  using div_step [of 400 "y - 1601"] mod_shift [of y 400 4] by simp
lemma mod_400_100: "y mod 400 = 0 \<Longrightarrow> y mod 100 = 0" for y :: int
  using mod_mod_cancel [of 100 400 y] by simp
lemma mod_100_4: "y mod 100 = 0 \<Longrightarrow> y mod 4 = 0" for y :: int
  using mod_mod_cancel [of 4 100 y] by simp

lemma DaysInYear_alt:
  "DaysInYear y = 365 + (if y mod 4 = 0 then 1 else 0) - (if y mod 100 = 0 then 1 else 0)
      + (if y mod 400 = 0 then 1 else 0)"
proof (cases "y mod 400 = 0")
  case True
  then show ?thesis using mod_400_100 [of y] mod_100_4 [of y]
    by (simp add: DaysInYear_def leap_year_def)
next
  case n400: False
  show ?thesis
  proof (cases "y mod 100 = 0")
    case True
    then show ?thesis using n400 mod_100_4 [of y]
      by (simp add: DaysInYear_def leap_year_def)
  next
    case False
    then show ?thesis using n400
      by (simp add: DaysInYear_def leap_year_def)
  qed
qed

lemma DayFromYear_Suc: "DayFromYear (y + 1) = DayFromYear y + DaysInYear y"
proof -
  have "DayFromYear (y + 1) =
      365 * (y - 1969) + (y - 1968) div 4 - (y - 1900) div 100 + (y - 1600) div 400"
    by (simp add: DayFromYear_def)
  also have "\<dots> = DayFromYear y + DaysInYear y"
    unfolding div4_step div100_step div400_step DaysInYear_alt DayFromYear_def
    by (simp add: algebra_simps)
  finally show ?thesis .
qed

lemma DaysInYear_range: "365 \<le> DaysInYear y" "DaysInYear y \<le> 366"
  by (simp_all add: DaysInYear_def)

lemma DayFromYear_mono:
  assumes "y \<le> y'"
  shows "DayFromYear y + 365 * (y' - y) \<le> DayFromYear y'"
  using assms
proof (induction y' rule: int_ge_induct)
  case base
  show ?case by simp
next
  case (step i)
  have "DayFromYear (i + 1) = DayFromYear i + DaysInYear i" by (rule DayFromYear_Suc)
  with step.IH DaysInYear_range(1) [of i] show ?case by (simp add: algebra_simps)
qed

lemma DayFromYear_strict_mono:
  assumes "y < y'"
  shows "DayFromYear y < DayFromYear y'"
  using DayFromYear_mono [of y y'] assms by simp

lemma YearFromDay_unique:
  assumes "DayFromYear y \<le> d" and "d < DayFromYear (y + 1)"
  shows "YearFromDay d = y"
proof (rule ccontr)
  assume neq: "YearFromDay d \<noteq> y"
  let ?z = "YearFromDay d"
  show False
  proof (cases "?z < y")
    case True
    then have "DayFromYear (?z + 1) \<le> DayFromYear y"
      using DayFromYear_mono [of "?z + 1" y] by simp
    with YearFromDay_range(2) [of d] assms(1) show False by simp
  next
    case False
    with neq have "y + 1 \<le> ?z" by simp
    then have "DayFromYear (y + 1) \<le> DayFromYear ?z"
      using DayFromYear_mono [of "y + 1" ?z] by simp
    with YearFromDay_range(1) [of d] assms(2) show False by simp
  qed
qed

lemma YearFromDay_mono:
  assumes "d \<le> d'"
  shows "YearFromDay d \<le> YearFromDay d'"
proof (rule ccontr)
  assume "\<not> YearFromDay d \<le> YearFromDay d'"
  then have "YearFromDay d' + 1 \<le> YearFromDay d" by simp
  then have "DayFromYear (YearFromDay d' + 1) \<le> DayFromYear (YearFromDay d)"
    using DayFromYear_mono [of "YearFromDay d' + 1" "YearFromDay d"] by simp
  with YearFromDay_range(1) [of d] YearFromDay_range(2) [of d'] assms show False by simp
qed

lemma DayWithinYear_range:
  "0 \<le> DayWithinYear t" "DayWithinYear t < DaysInYear (YearFromTime t)"
  using YearFromDay_range [of "Day t"] DayFromYear_Suc [of "YearFromTime t"]
  by (simp_all add: DayWithinYear_def YearFromTime_def)

lemma month_of_year_day_range: "0 \<le> month_of_year_day d l" "month_of_year_day d l \<le> 11"
  by (simp_all add: month_of_year_day_def)

lemma MonthFromTime_range: "0 \<le> MonthFromTime t" "MonthFromTime t \<le> 11"
  by (simp_all add: MonthFromTime_def month_of_year_day_range)

lemma MakeDay_normal:
  assumes "0 \<le> m" and "m \<le> 11"
  shows "MakeDay y m dt = DayFromYear y + month_start m (if leap_year y then 1 else 0) + dt - 1"
proof -
  have "m div 12 = 0" "m mod 12 = m" using assms by simp_all
  then show ?thesis by (simp add: MakeDay_def Let_def)
qed

lemma MakeDay_fields:
  "MakeDay (YearFromTime t) (MonthFromTime t) (DateFromTime t) = Day t"
  by (simp add: MakeDay_normal MonthFromTime_range DateFromTime_def InLeapYear_def
      DayWithinYear_def)

lemma MakeDay_add_date: "MakeDay y m (dt + k) = MakeDay y m dt + k"
  by (simp add: MakeDay_def Let_def)

lemma MakeDay_carry_month: "MakeDay (y + 1) (m - 12) dt = MakeDay y m dt"
proof -
  have "(m - 12) div 12 = m div 12 - 1" "(m - 12) mod 12 = m mod 12"
    using div_add_self2 [of 12 "m - 12"] mod_add_self2 [of "m - 12" 12] by simp_all
  then show ?thesis by (simp add: MakeDay_def Let_def)
qed

subsection \<open>Months\<close>

lemma MakeDay_month_norm: "MakeDay y m dt = MakeDay 0 (12 * y + m) dt"
proof -
  have "(12 * y + m) div 12 = y + m div 12" "(12 * y + m) mod 12 = m mod 12"
    by simp_all
  then show ?thesis by (simp add: MakeDay_def Let_def)
qed

lemma MakeDay_year_mono:
  assumes "y \<le> y'"
  shows "MakeDay y m dt \<le> MakeDay y' m dt"
proof (cases "y = y'")
  case True
  then show ?thesis by simp
next
  case False
  define l :: int where "l = (if leap_year (y + m div 12) then 1 else 0)"
  define l' :: int where "l' = (if leap_year (y' + m div 12) then 1 else 0)"
  from False assms have "y + m div 12 + 1 \<le> y' + m div 12" by simp
  then have "DayFromYear (y + m div 12 + 1) \<le> DayFromYear (y' + m div 12)"
    using DayFromYear_mono [of "y + m div 12 + 1" "y' + m div 12"] by simp
  moreover have "365 \<le> DaysInYear (y + m div 12)" by (rule DaysInYear_range)
  moreover have "month_start (m mod 12) l \<le> month_start (m mod 12) l' + 1"
    by (auto simp add: month_start_def l_def l'_def)
  moreover have "MakeDay y m dt = DayFromYear (y + m div 12) + month_start (m mod 12) l + dt - 1"
    by (simp add: MakeDay_def Let_def l_def)
  moreover have "MakeDay y' m dt = DayFromYear (y' + m div 12) + month_start (m mod 12) l' + dt - 1"
    by (simp add: MakeDay_def Let_def l'_def)
  ultimately show ?thesis
    by (simp add: DayFromYear_Suc)
qed

lemma month_cases:
  fixes m :: int
  assumes "0 \<le> m" and "m \<le> 11"
  shows "m = 0 \<or> m = 1 \<or> m = 2 \<or> m = 3 \<or> m = 4 \<or> m = 5 \<or> m = 6 \<or> m = 7
      \<or> m = 8 \<or> m = 9 \<or> m = 10 \<or> m = 11"
proof -
  have "[0..11::int] = [0, 1, 2, 3, 4, 5, 6, 7, 8, 9, 10, 11]"
    by (simp add: upto.simps)
  moreover have "m \<in> set [0..11]" using assms by simp
  ultimately have "m \<in> set [0, 1, 2, 3, 4, 5, 6, 7, 8, 9, 10, 11 :: int]" by simp
  then show ?thesis by simp
qed

lemma month_start_step:
  assumes "0 \<le> m" and "m < 11" and "l = 0 \<or> l = 1"
  shows "month_start m l + 28 \<le> month_start (m + 1) l"
proof -
  from assms(2) have "m \<le> 11" by simp
  from month_cases [OF assms(1) this] assms(2,3) show ?thesis
    by (elim disjE) (simp_all add: month_start_def)
qed

lemma month_start_last: "l = 0 \<or> l = 1 \<Longrightarrow> month_start 11 l + 31 = 365 + l"
  by (auto simp add: month_start_def)

lemma month_start_range:
  assumes "0 \<le> m" and "m \<le> 11" and "l = 0 \<or> l = 1"
  shows "0 \<le> month_start m l" "month_start m l \<le> 334 + l"
  using month_cases [OF assms(1,2)] assms(3)
  by (elim disjE; simp add: month_start_def)+

lemma MakeDay_next_month: "MakeDay 0 k 1 + 28 \<le> MakeDay 0 (k + 1) 1"
proof -
  define y where "y = k div 12"
  define m where "m = k mod 12"
  define l :: int where "l = (if leap_year y then 1 else 0)"
  have m: "0 \<le> m" "m \<le> 11" by (simp_all add: m_def)
  have l: "l = 0 \<or> l = 1" by (simp add: l_def)
  have k: "k = 12 * y + m" by (simp add: y_def m_def)
  have lhs: "MakeDay 0 k 1 = DayFromYear y + month_start m l"
    unfolding k MakeDay_month_norm [symmetric] using m by (simp add: MakeDay_normal l_def)
  show ?thesis
  proof (cases "m = 11")
    case True
    then have "MakeDay 0 (k + 1) 1 = MakeDay (y + 1) 0 1"
      unfolding MakeDay_month_norm [of "y + 1" 0 1] using k by (simp add: algebra_simps)
    also have "\<dots> = DayFromYear y + DaysInYear y"
      by (simp add: MakeDay_normal month_start_def DayFromYear_Suc)
    finally show ?thesis
      using lhs True month_start_last [OF l] by (simp add: DaysInYear_def l_def)
  next
    case False
    with m have m': "0 \<le> m + 1" "m + 1 \<le> 11" "m < 11" by simp_all
    have "MakeDay 0 (k + 1) 1 = MakeDay y (m + 1) 1"
      unfolding MakeDay_month_norm [of y "m + 1" 1] using k by (simp add: algebra_simps)
    also have "\<dots> = DayFromYear y + month_start (m + 1) l"
      using m'(1,2) by (simp add: MakeDay_normal l_def)
    finally show ?thesis
      using lhs month_start_step [OF m(1) m'(3) l] by simp
  qed
qed

lemma MakeDay_months_mono:
  assumes "0 \<le> n"
  shows "MakeDay 0 k 1 + 28 * n \<le> MakeDay 0 (k + n) 1"
  using assms
proof (induction n rule: int_ge_induct)
  case base
  show ?case by simp
next
  case (step i)
  have "MakeDay 0 (k + i) 1 + 28 \<le> MakeDay 0 (k + i + 1) 1" by (rule MakeDay_next_month)
  with step.IH show ?case by (simp add: algebra_simps)
qed

lemma year_day_before_next_month:
  assumes "0 \<le> d" and "d < 365 + l" and "l = 0 \<or> l = 1"
  shows "d < month_start (month_of_year_day d l) l + 31"
  using assms by (auto simp add: month_of_year_day_def month_start_def)

subsection \<open>Time within the day\<close>

lemma div_minute: "t div msPerMinute = (t div msPerSecond) div 60"
  using zdiv_zmult2_eq [of 60 t 1000] by (simp add: msPer_defs)

lemma div_hour: "t div msPerHour = (t div msPerMinute) div 60"
  using zdiv_zmult2_eq [of 60 t 60000] by (simp add: msPer_defs)

lemma div_day: "t div msPerDay = (t div msPerHour) div 24"
  using zdiv_zmult2_eq [of 24 t 3600000] by (simp add: msPer_defs)

lemma split_unit:
  fixes a x n :: int
  shows "a * (x mod n) + (a * n) * (x div n) = a * x"
proof -
  have "a * x = a * (n * (x div n) + x mod n)" by simp
  also have "\<dots> = a * (x mod n) + (a * n) * (x div n)"
    by (simp only: distrib_left mult.assoc add.commute)
  finally show ?thesis by simp
qed

lemma floor_second:
  "(t div msPerMinute) * msPerMinute + SecFromTime t * msPerSecond = (t div msPerSecond) * msPerSecond"
  unfolding div_minute SecFromTime_def
  using split_unit [of 1000 "t div 1000" 60] by (simp add: msPer_defs algebra_simps)

lemma floor_minute:
  "(t div msPerHour) * msPerHour + MinFromTime t * msPerMinute = (t div msPerMinute) * msPerMinute"
  unfolding div_hour MinFromTime_def
  using split_unit [of 60000 "t div 60000" 60] by (simp add: msPer_defs algebra_simps)

lemma floor_hour:
  "Day t * msPerDay + HourFromTime t * msPerHour = (t div msPerHour) * msPerHour"
  unfolding Day_def div_day HourFromTime_def
  using split_unit [of 3600000 "t div 3600000" 24] by (simp add: msPer_defs algebra_simps)

lemma Day_of_whole_days: "Day (d * msPerDay) = d"
  by (simp add: Day_def msPerDay_def)

lemma floor_le: fixes t n :: int assumes "0 < n"
  shows "(t div n) * n \<le> t" "t < (t div n) * n + n"
  using div_bounds [OF assms, of t] by (simp_all add: algebra_simps)

subsection \<open>Reading the fields of the first day of a month\<close>

lemma YearFromDay_MakeDay:
  assumes "0 \<le> m" and "m \<le> 11"
  shows "YearFromDay (MakeDay y m 1) = y"
proof (rule YearFromDay_unique)
  define l :: int where "l = (if leap_year y then 1 else 0)"
  have l: "l = 0 \<or> l = 1" by (simp add: l_def)
  have eq: "MakeDay y m 1 = DayFromYear y + month_start m l"
    using assms by (simp add: MakeDay_normal l_def)
  show "DayFromYear y \<le> MakeDay y m 1"
    unfolding eq using month_start_range(1) [OF assms l] by simp
  have diy: "DaysInYear y = 365 + l" by (simp add: DaysInYear_def l_def)
  show "MakeDay y m 1 < DayFromYear (y + 1)"
    unfolding eq DayFromYear_Suc diy using month_start_range(2) [OF assms l] by simp
qed

lemma month_of_month_start:
  assumes "0 \<le> m" and "m \<le> 11" and "l = 0 \<or> l = 1"
  shows "month_of_year_day (month_start m l) l = m"
  using month_cases [OF assms(1,2)] assms(3)
  by (elim disjE) (simp_all add: month_start_def month_of_year_day_def)

lemma YearFromTime_month_start:
  assumes "0 \<le> m" and "m \<le> 11"
  shows "YearFromTime (MakeDay y m 1 * msPerDay) = y"
  by (simp add: YearFromTime_def Day_of_whole_days YearFromDay_MakeDay assms)

lemma DayWithinYear_month_start:
  assumes "0 \<le> m" and "m \<le> 11"
  shows "DayWithinYear (MakeDay y m 1 * msPerDay) = month_start m (if leap_year y then 1 else 0)"
proof -
  have "DayWithinYear (MakeDay y m 1 * msPerDay) = MakeDay y m 1 - DayFromYear y"
    by (simp add: DayWithinYear_def YearFromTime_month_start [OF assms] Day_of_whole_days)
  then show ?thesis
    by (simp add: MakeDay_normal [OF assms])
qed

lemma InLeapYear_month_start:
  assumes "0 \<le> m" and "m \<le> 11"
  shows "InLeapYear (MakeDay y m 1 * msPerDay) = (if leap_year y then 1 else 0)"
  by (simp add: InLeapYear_def YearFromTime_month_start [OF assms])

lemma MonthFromTime_month_start:
  assumes "0 \<le> m" and "m \<le> 11"
  shows "MonthFromTime (MakeDay y m 1 * msPerDay) = m"
proof -
  define l :: int where "l = (if leap_year y then 1 else 0)"
  have l: "l = 0 \<or> l = 1" by (simp add: l_def)
  have "MonthFromTime (MakeDay y m 1 * msPerDay) = month_of_year_day (month_start m l) l"
    by (simp only: MonthFromTime_def DayWithinYear_month_start [OF assms]
        InLeapYear_month_start [OF assms] l_def)
  then show ?thesis
    by (simp only: month_of_month_start [OF assms l])
qed

lemma fields_of_any_month_start:
  "YearFromTime (MakeDay y m 1 * msPerDay) = y + m div 12"
  "MonthFromTime (MakeDay y m 1 * msPerDay) = m mod 12"
proof -
  have "12 * (y + m div 12) + m mod 12 = 12 * y + m"
    by (simp add: distrib_left add.assoc)
  then have eq: "MakeDay y m 1 = MakeDay (y + m div 12) (m mod 12) 1"
    by (simp only: MakeDay_month_norm [of y m 1]
        MakeDay_month_norm [of "y + m div 12" "m mod 12" 1])
  show "YearFromTime (MakeDay y m 1 * msPerDay) = y + m div 12"
    unfolding eq by (rule YearFromTime_month_start) simp_all
  show "MonthFromTime (MakeDay y m 1 * msPerDay) = m mod 12"
    unfolding eq by (rule MonthFromTime_month_start) simp_all
qed

lemma Day_before_next_month:
  "Day t < MakeDay (YearFromTime t) (MonthFromTime t) 1 + 31"
proof -
  define l where "l = InLeapYear t"
  have l: "l = 0 \<or> l = 1" by (simp add: l_def InLeapYear_def)
  have diy: "DaysInYear (YearFromTime t) = 365 + l"
    by (simp add: DaysInYear_def l_def InLeapYear_def)
  have r: "0 \<le> DayWithinYear t" "DayWithinYear t < 365 + l"
    using DayWithinYear_range [of t] unfolding diy by simp_all
  have "DayWithinYear t < month_start (MonthFromTime t) l + 31"
    unfolding MonthFromTime_def l_def [symmetric]
    by (rule year_day_before_next_month [OF r l])
  then show ?thesis
    by (simp add: MakeDay_normal MonthFromTime_range DayWithinYear_def l_def InLeapYear_def)
qed

lemma Day_before_next_year: "Day t < DayFromYear (YearFromTime t + 1)"
  using YearFromDay_range(2) [of "Day t"] by (simp add: YearFromTime_def)

subsection \<open>The Date constructor on the fields of an instant\<close>

lemma new_Date6_plain:
  assumes "\<not> (0 \<le> y \<and> y \<le> 99)"
  shows "new_Date6 y m dt h mi s = TimeClip (MakeDate (MakeDay y m dt) (MakeTime h mi s 0))"
  using assms by (auto simp add: new_Date6_def)

lemma MakeDate_mono: "d \<le> d' \<Longrightarrow> MakeDate d tm \<le> MakeDate d' tm"
  by (simp add: MakeDate_def msPerDay_def)

lemma new_Date6_lower:
  assumes "new_Date6 y m dt h mi s = Some r"
  shows "MakeDate (MakeDay y m dt) (MakeTime h mi s 0) \<le> r"
proof -
  define yr where "yr = (if 0 \<le> y \<and> y \<le> 99 then 1900 + y else y)"
  have "y \<le> yr" by (simp add: yr_def)
  then have "MakeDate (MakeDay y m dt) (MakeTime h mi s 0)
      \<le> MakeDate (MakeDay yr m dt) (MakeTime h mi s 0)"
    by (intro MakeDate_mono MakeDay_year_mono)
  moreover have "TimeClip (MakeDate (MakeDay yr m dt) (MakeTime h mi s 0)) = Some r"
    using assms by (simp add: new_Date6_def yr_def)
  then have "MakeDate (MakeDay yr m dt) (MakeTime h mi s 0) = r"
    by (simp add: TimeClip_def split: if_splits)
  ultimately show ?thesis by simp
qed

lemma fields_second:
  "MakeDate (MakeDay (getFullYear t) (getMonth t) (getDate t))
     (MakeTime (getHours t) (getMinutes t) (getSeconds t + n) 0) = units_after eSecond t n"
proof -
  have "Day t * msPerDay + HourFromTime t * msPerHour + MinFromTime t * msPerMinute
        + SecFromTime t * msPerSecond = (t div msPerSecond) * msPerSecond"
    by (simp only: floor_hour floor_minute floor_second)
  then show ?thesis
    by (simp add: getter_defs MakeDay_fields MakeDate_def MakeTime_def algebra_simps)
qed

lemma fields_minute:
  "MakeDate (MakeDay (getFullYear t) (getMonth t) (getDate t))
     (MakeTime (getHours t) (getMinutes t + n) 0 0) = units_after eMinute t n"
proof -
  have "Day t * msPerDay + HourFromTime t * msPerHour + MinFromTime t * msPerMinute
        = (t div msPerMinute) * msPerMinute"
    by (simp only: floor_hour floor_minute)
  then show ?thesis
    by (simp add: getter_defs MakeDay_fields MakeDate_def MakeTime_def algebra_simps)
qed

lemma fields_hour:
  assumes "d * 24 + h = getDate t * 24 + (getHours t + n)"
  shows "MakeDate (MakeDay (getFullYear t) (getMonth t) d) (MakeTime h 0 0 0)
     = units_after eHour t n"
proof -
  have d: "d = getDate t + (d - getDate t)" by simp
  have "MakeDay (getFullYear t) (getMonth t) d = Day t + (d - getDate t)"
    by (subst d) (simp only: MakeDay_add_date getter_defs MakeDay_fields)
  moreover have "Day t * msPerDay + HourFromTime t * msPerHour = (t div msPerHour) * msPerHour"
    by (rule floor_hour)
  moreover have "h = getHours t + n - 24 * (d - getDate t)" using assms by simp
  ultimately show ?thesis
    by (simp add: getter_defs MakeDate_def MakeTime_def msPer_defs algebra_simps)
qed

lemma fields_day:
  "MakeDate (MakeDay (getFullYear t) (getMonth t) (getDate t + n)) (MakeTime 0 0 0 0)
     = units_after eDay t n"
  by (simp add: getter_defs MakeDay_add_date MakeDay_fields MakeDate_def MakeTime_def)

lemma carryMonths_MakeDay:
  "MakeDay (fst (carryMonths y m)) (snd (carryMonths y m)) dt = MakeDay y m dt"
proof (induction y m rule: carryMonths.induct)
  case (1 tYear tMonth)
  show ?case
  proof (cases "tMonth > 12")
    case True
    have "carryMonths tYear tMonth = carryMonths (tYear + 1) (tMonth - 12)"
      by (subst carryMonths.simps) (simp add: True)
    with 1 [OF True] show ?thesis by (simp add: MakeDay_carry_month)
  next
    case False
    have "carryMonths tYear tMonth = (tYear, tMonth)"
      by (subst carryMonths.simps) (simp add: False)
    then show ?thesis by simp
  qed
qed

lemma carryMonths_year: "y \<le> fst (carryMonths y m)"
proof (induction y m rule: carryMonths.induct)
  case (1 tYear tMonth)
  show ?case
  proof (cases "tMonth > 12")
    case True
    have "carryMonths tYear tMonth = carryMonths (tYear + 1) (tMonth - 12)"
      by (subst carryMonths.simps) (simp add: True)
    with 1 [OF True] show ?thesis by simp
  next
    case False
    have "carryMonths tYear tMonth = (tYear, tMonth)"
      by (subst carryMonths.simps) (simp add: False)
    then show ?thesis by simp
  qed
qed

lemma carryHours_sum:
  "fst (carryHours d h) * 24 + snd (carryHours d h) = d * 24 + h"
proof (induction d h rule: carryHours.induct)
  case (1 tDayOfMonth tHour)
  show ?case
  proof (cases "tHour > 24")
    case True
    have "carryHours tDayOfMonth tHour = carryHours (tDayOfMonth + 1) (tHour - 24)"
      by (subst carryHours.simps) (simp add: True)
    with 1 [OF True] show ?thesis by simp
  next
    case False
    have "carryHours tDayOfMonth tHour = (tDayOfMonth, tHour)"
      by (subst carryHours.simps) (simp add: False)
    then show ?thesis by simp
  qed
qed

subsection \<open>What the increment function passes to the Date constructor\<close>

lemma inc_call_eYear:
  "getLabelForIncrementedDateAtLevel env eYear (Some t) n =
     Inr \<lparr>labelString = string_of_int (getFullYear t + n),
          labelDate = new_Date3 (getFullYear t + n) 1 1\<rparr>"
  by (simp add: getLabelForIncrementedDateAtLevel_def Let_def)

lemma inc_call_eMonth:
  "getLabelForIncrementedDateAtLevel env eMonth (Some t) n =
     (let tYear = fst (carryMonths (getFullYear t) (getMonth t + n));
          tMonth = snd (carryMonths (getFullYear t) (getMonth t + n));
          tResultDate = new_Date3 tYear tMonth 1
      in case monthNameOf env tResultDate of
           Inl e \<Rightarrow> Inl e
         | Inr name \<Rightarrow> Inr \<lparr>labelString = name, labelDate = tResultDate\<rparr>)"
  by (simp add: getLabelForIncrementedDateAtLevel_def Let_def case_prod_beta)

lemma inc_call_eDay:
  "getLabelForIncrementedDateAtLevel env eDay (Some t) n =
     (let tResultDate = new_Date3 (getFullYear t) (getMonth t) (getDate t + n)
      in Inr \<lparr>labelString = String_of_field (map_option getDate tResultDate),
               labelDate = tResultDate\<rparr>)"
  by (simp add: getLabelForIncrementedDateAtLevel_def Let_def)

lemma inc_call_eHour:
  "getLabelForIncrementedDateAtLevel env eHour (Some t) n =
     (let tDayOfMonth = fst (carryHours (getDate t) (getHours t + n));
          tHour = snd (carryHours (getDate t) (getHours t + n));
          tResultDate = new_Date4 (getFullYear t) (getMonth t) tDayOfMonth tHour
      in Inr \<lparr>labelString = String_of_field (map_option getHours tResultDate) @ '':00'',
               labelDate = tResultDate\<rparr>)"
  by (simp add: getLabelForIncrementedDateAtLevel_def Let_def case_prod_beta)

lemma inc_call_eMinute:
  "getLabelForIncrementedDateAtLevel env eMinute (Some t) n =
     (let tResultDate =
            new_Date5 (getFullYear t) (getMonth t) (getDate t) (getHours t) (getMinutes t + n)
      in Inr \<lparr>labelString =
                 string_of_int (getHours t) @ '':'' @ two_digits (map_option getMinutes tResultDate),
               labelDate = tResultDate\<rparr>)"
  by (simp add: getLabelForIncrementedDateAtLevel_def Let_def)

lemma inc_call_eSecond:
  "getLabelForIncrementedDateAtLevel env eSecond (Some t) n =
     (let tResultDate =
            new_Date6 (getFullYear t) (getMonth t) (getDate t) (getHours t) (getMinutes t)
              (getSeconds t + n)
      in Inr \<lparr>labelString =
                 string_of_int (getHours t) @ '':'' @ two_digits (Some (getMinutes t)) @ '':''
                   @ two_digits (map_option getSeconds tResultDate),
               labelDate = tResultDate\<rparr>)"
  by (simp add: getLabelForIncrementedDateAtLevel_def Let_def)

lemmas inc_calls =
  inc_call_eYear inc_call_eMonth inc_call_eDay inc_call_eHour inc_call_eMinute inc_call_eSecond

text \<open>
  Every level ends in one call of the Date constructor. Its arguments denote, before the
  two-digit rule for the year and before clipping, the instant \<open>units_after level t n\<close>.
\<close>

lemma carryMonths_none: "m \<le> 12 \<Longrightarrow> carryMonths y m = (y, m)"
  by (subst carryMonths.simps) simp

lemma resultDate_month:
  "resultDate (case monthNameOf env d of
                 Inl e \<Rightarrow> Inl e
               | Inr name \<Rightarrow> Inr \<lparr>labelString = name, labelDate = d\<rparr>) =
     (case d of None \<Rightarrow> Inl TypeError | Some r \<Rightarrow> Inr (Some r))"
  by (simp add: resultDate_def monthNameOf_def split: option.split)

lemma resultDate_Inr:
  "resultDate (Inr \<lparr>labelString = s, labelDate = d\<rparr>) =
     (case d of None \<Rightarrow> Inr None | Some r \<Rightarrow> Inr (Some r))"
  by (simp add: resultDate_def split: option.split)

lemma inc_constructed_eSecond:
  "\<exists>y m dt h mi s.
     MakeDate (MakeDay y m dt) (MakeTime h mi s 0) = units_after eSecond t n
     \<and> (100 \<le> getFullYear t \<longrightarrow> 0 \<le> n \<longrightarrow> 100 \<le> y)
     \<and> (n = 0 \<longrightarrow> y = getFullYear t)
     \<and> resultDate (getLabelForIncrementedDateAtLevel env eSecond (Some t) n) =
         (case new_Date6 y m dt h mi s of
            None \<Rightarrow> if eSecond = eMonth then Inl TypeError else Inr None
          | Some r \<Rightarrow> Inr (Some r))"
proof -
  show ?thesis
    unfolding inc_call_eSecond Let_def resultDate_Inr
    by (rule exI [of _ "getFullYear t"],
        rule exI [of _ "getMonth t"],
        rule exI [of _ "getDate t"],
        rule exI [of _ "getHours t"],
        rule exI [of _ "getMinutes t"],
        rule exI [of _ "getSeconds t + n"])
      (simp add: fields_second)
qed

lemma inc_constructed_eMinute:
  "\<exists>y m dt h mi s.
     MakeDate (MakeDay y m dt) (MakeTime h mi s 0) = units_after eMinute t n
     \<and> (100 \<le> getFullYear t \<longrightarrow> 0 \<le> n \<longrightarrow> 100 \<le> y)
     \<and> (n = 0 \<longrightarrow> y = getFullYear t)
     \<and> resultDate (getLabelForIncrementedDateAtLevel env eMinute (Some t) n) =
         (case new_Date6 y m dt h mi s of
            None \<Rightarrow> if eMinute = eMonth then Inl TypeError else Inr None
          | Some r \<Rightarrow> Inr (Some r))"
proof -
  show ?thesis
    unfolding inc_call_eMinute Let_def resultDate_Inr new_Date5_def
    by (rule exI [of _ "getFullYear t"],
        rule exI [of _ "getMonth t"],
        rule exI [of _ "getDate t"],
        rule exI [of _ "getHours t"],
        rule exI [of _ "getMinutes t + n"],
        rule exI [of _ 0])
      (simp add: fields_minute)
qed

lemma inc_constructed_eHour:
  "\<exists>y m dt h mi s.
     MakeDate (MakeDay y m dt) (MakeTime h mi s 0) = units_after eHour t n
     \<and> (100 \<le> getFullYear t \<longrightarrow> 0 \<le> n \<longrightarrow> 100 \<le> y)
     \<and> (n = 0 \<longrightarrow> y = getFullYear t)
     \<and> resultDate (getLabelForIncrementedDateAtLevel env eHour (Some t) n) =
         (case new_Date6 y m dt h mi s of
            None \<Rightarrow> if eHour = eMonth then Inl TypeError else Inr None
          | Some r \<Rightarrow> Inr (Some r))"
proof -
  define d where "d = fst (carryHours (getDate t) (getHours t + n))"
  define h where "h = snd (carryHours (getDate t) (getHours t + n))"
  have "d * 24 + h = getDate t * 24 + (getHours t + n)"
    unfolding d_def h_def by (rule carryHours_sum)
  then have v: "MakeDate (MakeDay (getFullYear t) (getMonth t) d) (MakeTime h 0 0 0)
      = units_after eHour t n" by (rule fields_hour)
  show ?thesis
    unfolding inc_call_eHour Let_def resultDate_Inr new_Date4_def
      d_def [symmetric] h_def [symmetric]
    by (rule exI [of _ "getFullYear t"],
        rule exI [of _ "getMonth t"],
        rule exI [of _ d],
        rule exI [of _ h],
        rule exI [of _ 0], rule exI [of _ 0]) (simp add: v)
qed

lemma inc_constructed_eDay:
  "\<exists>y m dt h mi s.
     MakeDate (MakeDay y m dt) (MakeTime h mi s 0) = units_after eDay t n
     \<and> (100 \<le> getFullYear t \<longrightarrow> 0 \<le> n \<longrightarrow> 100 \<le> y)
     \<and> (n = 0 \<longrightarrow> y = getFullYear t)
     \<and> resultDate (getLabelForIncrementedDateAtLevel env eDay (Some t) n) =
         (case new_Date6 y m dt h mi s of
            None \<Rightarrow> if eDay = eMonth then Inl TypeError else Inr None
          | Some r \<Rightarrow> Inr (Some r))"
proof -
  show ?thesis
    unfolding inc_call_eDay Let_def resultDate_Inr new_Date3_def
    by (rule exI [of _ "getFullYear t"],
        rule exI [of _ "getMonth t"],
        rule exI [of _ "getDate t + n"],
        rule exI [of _ 0], rule exI [of _ 0], rule exI [of _ 0])
      (simp add: fields_day)
qed

lemma inc_constructed_eMonth:
  "\<exists>y m dt h mi s.
     MakeDate (MakeDay y m dt) (MakeTime h mi s 0) = units_after eMonth t n
     \<and> (100 \<le> getFullYear t \<longrightarrow> 0 \<le> n \<longrightarrow> 100 \<le> y)
     \<and> (n = 0 \<longrightarrow> y = getFullYear t)
     \<and> resultDate (getLabelForIncrementedDateAtLevel env eMonth (Some t) n) =
         (case new_Date6 y m dt h mi s of
            None \<Rightarrow> if eMonth = eMonth then Inl TypeError else Inr None
          | Some r \<Rightarrow> Inr (Some r))"
proof -
  define y where "y = fst (carryMonths (getFullYear t) (getMonth t + n))"
  define m where "m = snd (carryMonths (getFullYear t) (getMonth t + n))"
  have "MakeDay y m 1 = MakeDay (getFullYear t) (getMonth t + n) 1"
    unfolding y_def m_def by (rule carryMonths_MakeDay)
  then have 1: "MakeDate (MakeDay y m 1) (MakeTime 0 0 0 0) = units_after eMonth t n"
    by (simp add: MakeDate_def MakeTime_def getter_defs)
  have 2: "getFullYear t \<le> y" unfolding y_def by (rule carryMonths_year)
  have 3: "y = getFullYear t" if "n = 0"
    using that MonthFromTime_range(2) [of t]
    by (simp add: y_def getMonth_def carryMonths_none)
  show ?thesis
    unfolding inc_call_eMonth Let_def resultDate_month new_Date3_def
      y_def [symmetric] m_def [symmetric]
    by (rule exI [of _ y],
        rule exI [of _ m],
        rule exI [of _ 1],
        rule exI [of _ 0], rule exI [of _ 0], rule exI [of _ 0]) (use 1 2 3 in simp)
qed

lemma inc_constructed_eYear:
  "\<exists>y m dt h mi s.
     MakeDate (MakeDay y m dt) (MakeTime h mi s 0) = units_after eYear t n
     \<and> (100 \<le> getFullYear t \<longrightarrow> 0 \<le> n \<longrightarrow> 100 \<le> y)
     \<and> (n = 0 \<longrightarrow> y = getFullYear t)
     \<and> resultDate (getLabelForIncrementedDateAtLevel env eYear (Some t) n) =
         (case new_Date6 y m dt h mi s of
            None \<Rightarrow> if eYear = eMonth then Inl TypeError else Inr None
          | Some r \<Rightarrow> Inr (Some r))"
proof -
  have v: "MakeDate (MakeDay (getFullYear t + n) 1 1) (MakeTime 0 0 0 0) = units_after eYear t n"
    by (simp add: MakeDate_def MakeTime_def getter_defs)
  show ?thesis
    unfolding inc_call_eYear resultDate_Inr new_Date3_def
    by (rule exI [of _ "getFullYear t + n"],
        rule exI [of _ 1], rule exI [of _ 1],
        rule exI [of _ 0], rule exI [of _ 0], rule exI [of _ 0]) (simp add: v)
qed

lemma inc_constructed:
  "\<exists>y m dt h mi s.
     MakeDate (MakeDay y m dt) (MakeTime h mi s 0) = units_after level t n
     \<and> (100 \<le> getFullYear t \<longrightarrow> 0 \<le> n \<longrightarrow> 100 \<le> y)
     \<and> (n = 0 \<longrightarrow> y = getFullYear t)
     \<and> resultDate (getLabelForIncrementedDateAtLevel env level (Some t) n) =
         (case new_Date6 y m dt h mi s of
            None \<Rightarrow> if level = eMonth then Inl TypeError else Inr None
          | Some r \<Rightarrow> Inr (Some r))"
  by (cases level) (simp_all only: inc_constructed_eSecond inc_constructed_eMinute inc_constructed_eHour inc_constructed_eDay inc_constructed_eMonth inc_constructed_eYear)

lemma resultDate_cases:
  "(resultDate r = Inl e) = (r = Inl e)"
  "(resultDate r = Inr d) = (\<exists>l. r = Inr l \<and> labelDate l = d)"
  by (cases r; simp add: resultDate_def)+

text \<open>Without the two-digit rule, the result is the clipped instant.\<close>

lemma inc_date_plain:
  assumes "(100 \<le> getFullYear t \<and> 0 \<le> n) \<or> (n = 0 \<and> \<not> (0 \<le> getFullYear t \<and> getFullYear t \<le> 99))"
  shows "resultDate (getLabelForIncrementedDateAtLevel env level (Some t) n) =
     (case TimeClip (units_after level t n) of
        None \<Rightarrow> if level = eMonth then Inl TypeError else Inr None
      | Some r \<Rightarrow> Inr (Some r))"
proof -
  obtain y m dt h mi s where
    v: "MakeDate (MakeDay y m dt) (MakeTime h mi s 0) = units_after level t n"
    and y1: "100 \<le> getFullYear t \<longrightarrow> 0 \<le> n \<longrightarrow> 100 \<le> y"
    and y0: "n = 0 \<longrightarrow> y = getFullYear t"
    and r: "resultDate (getLabelForIncrementedDateAtLevel env level (Some t) n) =
         (case new_Date6 y m dt h mi s of
            None \<Rightarrow> if level = eMonth then Inl TypeError else Inr None
          | Some r \<Rightarrow> Inr (Some r))"
    using inc_constructed [of level t n env] by blast
  from assms y1 y0 have "\<not> (0 \<le> y \<and> y \<le> 99)" by auto
  then have "new_Date6 y m dt h mi s = TimeClip (units_after level t n)"
    using new_Date6_plain [of y m dt h mi s] v by simp
  with r show ?thesis by simp
qed

text \<open>With or without it, a valid result is not before that instant.\<close>

lemma inc_date_lower:
  assumes "resultDate (getLabelForIncrementedDateAtLevel env level (Some t) n) = Inr (Some r)"
  shows "units_after level t n \<le> r"
proof -
  obtain y m dt h mi s where
    v: "MakeDate (MakeDay y m dt) (MakeTime h mi s 0) = units_after level t n"
    and r: "resultDate (getLabelForIncrementedDateAtLevel env level (Some t) n) =
         (case new_Date6 y m dt h mi s of
            None \<Rightarrow> if level = eMonth then Inl TypeError else Inr None
          | Some r \<Rightarrow> Inr (Some r))"
    using inc_constructed [of level t n env] by blast
  from assms r have "new_Date6 y m dt h mi s = Some r"
    by (simp split: option.splits if_splits)
  from new_Date6_lower [OF this] v show ?thesis by simp
qed

subsection \<open>Properties of \<open>units_after\<close>\<close>

lemma year_day_before_month_end:
  assumes "0 \<le> d" and "month_of_year_day d l < 11"
  shows "d < month_start (month_of_year_day d l + 1) l"
  using assms by (simp add: month_of_year_day_def month_start_def split: if_splits)

lemma Day_before_next_month_start:
  "Day t + 1 \<le> MakeDay (YearFromTime t) (MonthFromTime t + 1) 1"
proof (cases "MonthFromTime t < 11")
  case True
  define l where "l = InLeapYear t"
  have il: "(if leap_year (YearFromTime t) then 1 else 0) = l"
    by (simp add: l_def InLeapYear_def)
  have "DayWithinYear t < month_start (MonthFromTime t + 1) l"
    unfolding MonthFromTime_def l_def [symmetric]
    using DayWithinYear_range(1) [of t] True
    by (intro year_day_before_month_end) (simp_all add: MonthFromTime_def l_def)
  moreover have "MakeDay (YearFromTime t) (MonthFromTime t + 1) 1
      = DayFromYear (YearFromTime t) + month_start (MonthFromTime t + 1) l"
    using True MonthFromTime_range(1) [of t] by (simp add: MakeDay_normal il)
  ultimately show ?thesis by (simp add: DayWithinYear_def)
next
  case False
  with MonthFromTime_range(2) [of t] have m: "MonthFromTime t = 11" by simp
  have "MakeDay (YearFromTime t) 12 1 = MakeDay (YearFromTime t + 1) 0 1"
    using MakeDay_carry_month [of "YearFromTime t" 12 1] by simp
  also have "\<dots> = DayFromYear (YearFromTime t + 1)"
    by (simp add: MakeDay_normal month_start_def)
  finally show ?thesis
    using Day_before_next_year [of t] by (simp add: m)
qed

lemma Day_bounds: "Day t * msPerDay \<le> t" "t < (Day t + 1) * msPerDay"
  using floor_le [of msPerDay t] by (simp_all add: Day_def msPerDay_def algebra_simps)

lemma units_after_progress:
  assumes "1 \<le> n"
  shows "t + (n - 1) * 1000 < units_after level t n"
proof (cases level)
  case eSecond
  have "t < (t div msPerSecond) * msPerSecond + msPerSecond"
    by (rule floor_le) (simp add: msPerSecond_def)
  then show ?thesis using assms by (simp add: eSecond msPer_defs algebra_simps)
next
  case eMinute
  have "t < (t div msPerMinute) * msPerMinute + msPerMinute"
    by (rule floor_le) (simp add: msPerMinute_def)
  then show ?thesis using assms by (simp add: eMinute msPer_defs algebra_simps)
next
  case eHour
  have "t < (t div msPerHour) * msPerHour + msPerHour"
    by (rule floor_le) (simp add: msPerHour_def)
  then show ?thesis using assms by (simp add: eHour msPer_defs algebra_simps)
next
  case eDay
  from Day_bounds(2) [of t] assms show ?thesis
    by (simp add: eDay msPer_defs algebra_simps)
next
  case eMonth
  let ?k = "12 * YearFromTime t + MonthFromTime t + 1"
  have "MakeDay 0 ?k 1 + 28 * (n - 1) \<le> MakeDay 0 (?k + (n - 1)) 1"
    using assms by (intro MakeDay_months_mono) simp
  moreover have "MakeDay 0 ?k 1 = MakeDay (YearFromTime t) (MonthFromTime t + 1) 1"
    by (simp add: MakeDay_month_norm [of "YearFromTime t"] algebra_simps)
  moreover have "MakeDay 0 (?k + (n - 1)) 1 = MakeDay (YearFromTime t) (MonthFromTime t + n) 1"
    by (simp add: MakeDay_month_norm [of "YearFromTime t"] algebra_simps)
  ultimately have "Day t + 1 + 28 * (n - 1) \<le> MakeDay (YearFromTime t) (MonthFromTime t + n) 1"
    using Day_before_next_month_start [of t] by simp
  then have "(Day t + 1 + 28 * (n - 1)) * msPerDay \<le> units_after eMonth t n"
    by (simp add: msPerDay_def)
  with Day_bounds(2) [of t] assms show ?thesis
    by (simp add: eMonth msPer_defs algebra_simps)
next
  case eYear
  have "DayFromYear (YearFromTime t + 1) + 365 * (n - 1) \<le> DayFromYear (YearFromTime t + n)"
    using DayFromYear_mono [of "YearFromTime t + 1" "YearFromTime t + n"] assms by simp
  moreover have "MakeDay (YearFromTime t + n) 1 1 = DayFromYear (YearFromTime t + n) + 31"
    by (simp add: MakeDay_normal month_start_def)
  ultimately have "Day t + 1 + 365 * (n - 1) \<le> MakeDay (YearFromTime t + n) 1 1"
    using Day_before_next_year [of t] by simp
  then have "(Day t + 1 + 365 * (n - 1)) * msPerDay \<le> units_after eYear t n"
    by (simp add: msPerDay_def)
  with Day_bounds(2) [of t] assms show ?thesis
    by (simp add: eYear msPer_defs algebra_simps)
qed

lemma units_after_plus:
  "units_after level (units_after level t a) b = units_after level t (a + b)"
proof (cases level)
  case eSecond
  show ?thesis by (simp add: eSecond msPerSecond_def)
next
  case eMinute
  show ?thesis by (simp add: eMinute msPerMinute_def)
next
  case eHour
  show ?thesis by (simp add: eHour msPerHour_def)
next
  case eDay
  show ?thesis by (simp add: eDay Day_of_whole_days)
next
  case eMonth
  let ?y = "YearFromTime t" and ?m = "MonthFromTime t"
  have "MakeDay (?y + (?m + a) div 12) ((?m + a) mod 12 + b) 1
      = MakeDay 0 (12 * (?y + (?m + a) div 12) + ((?m + a) mod 12 + b)) 1"
    by (rule MakeDay_month_norm)
  also have "12 * (?y + (?m + a) div 12) + ((?m + a) mod 12 + b) = 12 * ?y + (?m + (a + b))"
    using mult_div_mod_eq [of 12 "?m + a"] by (simp only: distrib_left)
  also have "MakeDay 0 (12 * ?y + (?m + (a + b))) 1 = MakeDay ?y (?m + (a + b)) 1"
    by (rule MakeDay_month_norm [symmetric])
  finally show ?thesis
    by (simp add: eMonth fields_of_any_month_start)
next
  case eYear
  show ?thesis
    by (simp add: eYear YearFromTime_month_start add.assoc)
qed

lemma units_after_mono:
  assumes "0 \<le> b"
  shows "units_after level t a \<le> units_after level t (a + b)"
proof (cases level)
  case eMonth
  have "MakeDay 0 (12 * YearFromTime t + (MonthFromTime t + a)) 1 + 28 * b
      \<le> MakeDay 0 (12 * YearFromTime t + (MonthFromTime t + a) + b) 1"
    using assms by (rule MakeDay_months_mono)
  then have "MakeDay (YearFromTime t) (MonthFromTime t + a) 1
      \<le> MakeDay (YearFromTime t) (MonthFromTime t + (a + b)) 1"
    using assms by (simp add: MakeDay_month_norm [of "YearFromTime t"] add.assoc)
  then show ?thesis by (simp add: eMonth msPerDay_def)
next
  case eYear
  have "MakeDay (YearFromTime t + a) 1 1 \<le> MakeDay (YearFromTime t + (a + b)) 1 1"
    using assms by (intro MakeDay_year_mono) simp
  then show ?thesis by (simp add: eYear msPerDay_def add.assoc)
qed (use assms in \<open>simp_all add: msPer_defs\<close>)

lemma Day_mono: "t \<le> t' \<Longrightarrow> Day t \<le> Day t'"
  by (simp add: Day_def msPerDay_def zdiv_mono1)

lemma YearFromTime_mono: "t \<le> t' \<Longrightarrow> YearFromTime t \<le> YearFromTime t'"
  by (simp add: YearFromTime_def YearFromDay_mono Day_mono)

lemma floor_chain:
  "Day t * msPerDay \<le> (t div msPerHour) * msPerHour"
  "(t div msPerHour) * msPerHour \<le> (t div msPerMinute) * msPerMinute"
  "(t div msPerMinute) * msPerMinute \<le> (t div msPerSecond) * msPerSecond"
proof -
  have "0 \<le> HourFromTime t * msPerHour"
    by (simp add: HourFromTime_def msPerHour_def)
  with floor_hour [of t] show "Day t * msPerDay \<le> (t div msPerHour) * msPerHour"
    by linarith
  have "0 \<le> MinFromTime t * msPerMinute"
    by (simp add: MinFromTime_def msPerMinute_def)
  with floor_minute [of t] show "(t div msPerHour) * msPerHour \<le> (t div msPerMinute) * msPerMinute"
    by linarith
  have "0 \<le> SecFromTime t * msPerSecond"
    by (simp add: SecFromTime_def msPerSecond_def)
  with floor_second [of t]
  show "(t div msPerMinute) * msPerMinute \<le> (t div msPerSecond) * msPerSecond"
    by linarith
qed

lemma year_start_le_units_after:
  "MakeDay (YearFromTime t) 0 1 * msPerDay \<le> units_after level t 0"
proof -
  have d: "MakeDay (YearFromTime t) 0 1 \<le> Day t"
    using YearFromDay_range(1) [of "Day t"]
    by (simp add: MakeDay_normal month_start_def YearFromTime_def)
  then have dm: "MakeDay (YearFromTime t) 0 1 * msPerDay \<le> Day t * msPerDay"
    by (simp add: msPerDay_def)
  show ?thesis
  proof (cases level)
    case eSecond
    from dm floor_chain [of t] show ?thesis by (simp add: eSecond)
  next
    case eMinute
    from dm floor_chain(1,2) [of t] show ?thesis by (simp add: eMinute)
  next
    case eHour
    from dm floor_chain(1) [of t] show ?thesis by (simp add: eHour)
  next
    case eDay
    with dm show ?thesis by simp
  next
    case eMonth
    have "MakeDay (YearFromTime t) 0 1 \<le> MakeDay (YearFromTime t) (MonthFromTime t) 1"
      using MonthFromTime_range [of t]
        month_start_range(1) [of "MonthFromTime t" "if leap_year (YearFromTime t) then 1 else 0"]
      by (simp add: MakeDay_normal month_start_def)
    then show ?thesis by (simp add: eMonth msPerDay_def)
  next
    case eYear
    show ?thesis by (simp add: eYear MakeDay_normal month_start_def msPerDay_def)
  qed
qed

lemma year_of_units_after:
  assumes "0 \<le> a"
  shows "YearFromTime t \<le> YearFromTime (units_after level t a)"
proof -
  have "MakeDay (YearFromTime t) 0 1 * msPerDay \<le> units_after level t 0"
    by (rule year_start_le_units_after)
  also have "\<dots> \<le> units_after level t (0 + a)"
    using assms by (rule units_after_mono)
  finally have "YearFromTime (MakeDay (YearFromTime t) 0 1 * msPerDay)
      \<le> YearFromTime (units_after level t a)"
    by (intro YearFromTime_mono) simp
  then show ?thesis by (simp add: YearFromTime_month_start)
qed

subsection \<open>Aligned instants and the increment by zero\<close>

lemma floor_ms: "(t div msPerSecond) * msPerSecond + msFromTime t = t"
  by (simp add: msFromTime_def)

lemma aligned_units_after:
  assumes "aligned level x" and "level \<noteq> eYear"
  shows "units_after level x 0 = x"
proof (cases level)
  case eSecond
  with assms floor_ms [of x] show ?thesis by simp
next
  case eMinute
  with assms floor_ms [of x] floor_second [of x] show ?thesis by simp
next
  case eHour
  with assms floor_ms [of x] floor_second [of x] floor_minute [of x] show ?thesis by simp
next
  case eDay
  with assms floor_ms [of x] floor_second [of x] floor_minute [of x] floor_hour [of x]
  show ?thesis by simp
next
  case eMonth
  with assms floor_ms [of x] floor_second [of x] floor_minute [of x] floor_hour [of x]
  have "Day x * msPerDay = x" by simp
  moreover from eMonth assms MakeDay_fields [of x]
  have "MakeDay (YearFromTime x) (MonthFromTime x) 1 = Day x" by simp
  ultimately show ?thesis by (simp add: eMonth)
next
  case eYear
  with assms show ?thesis by simp
qed

lemma units_after_lower_bound:
  assumes "100 \<le> YearFromTime x" and "0 \<le> a"
  shows "- 8640000000000000 \<le> units_after level x a"
proof -
  have "MakeDay 100 0 1 \<le> MakeDay (YearFromTime x) 0 1"
    using assms(1) by (rule MakeDay_year_mono)
  then have "MakeDay 100 0 1 * msPerDay \<le> MakeDay (YearFromTime x) 0 1 * msPerDay"
    by (simp add: msPerDay_def)
  also have "\<dots> \<le> units_after level x 0" by (rule year_start_le_units_after)
  also have "\<dots> \<le> units_after level x (0 + a)" using assms(2) by (rule units_after_mono)
  finally show ?thesis
    by (simp add: MakeDay_normal month_start_def DayFromYear_def msPerDay_def)
qed

lemma inc_None:
  "getLabelForIncrementedDateAtLevel env level None n = Inr \<lparr>labelString = [], labelDate = None\<rparr>"
  by (simp add: getLabelForIncrementedDateAtLevel_def)

section \<open>Concrete instants\<close>

lemmas calendar_eval =
  getter_defs YearFromTime_def YearFromDay_def Day_def DayFromYear_def leap_year_def
  DayWithinYear_def InLeapYear_def MonthFromTime_def DateFromTime_def month_of_year_day_def
  month_start_def HourFromTime_def MinFromTime_def SecFromTime_def msFromTime_def
  MakeTime_def MakeDay_def MakeDate_def TimeClip_def new_Date6_def new_Date5_def new_Date4_def
  new_Date3_def msPer_defs Let_def date_before_def

lemma fields_2023_01_01:
  "getFullYear 1672531200000 = 2023" "getMonth 1672531200000 = 0" "getDate 1672531200000 = 1"
  "getHours 1672531200000 = 0" "getMinutes 1672531200000 = 0" "getSeconds 1672531200000 = 0"
  "msFromTime 1672531200000 = 0"
  by (simp_all add: calendar_eval)

lemma fields_year_minus_5:
  "getFullYear (- 62324985600000) = - 5" "getMonth (- 62324985600000) = 0"
  "getDate (- 62324985600000) = 1" "getHours (- 62324985600000) = 0"
  "getMinutes (- 62324985600000) = 0" "getSeconds (- 62324985600000) = 0"
  "msFromTime (- 62324985600000) = 0"
  by (simp_all add: calendar_eval)

lemma fields_year_50:
  "getFullYear (- 60589296000000) = 50" "getMonth (- 60589296000000) = 0"
  "getDate (- 60589296000000) = 1" "getHours (- 60589296000000) = 0"
  "getMinutes (- 60589296000000) = 0" "getSeconds (- 60589296000000) = 0"
  "msFromTime (- 60589296000000) = 0"
  by (simp_all add: calendar_eval)

lemma fields_1905_02_01: "getFullYear (- 2048544000000) = 1905"
  by (simp add: calendar_eval)

lemma february_firsts:
  "new_Date3 5 1 1 = Some (- 2048544000000)"
  "new_Date3 2000 1 1 = Some 949363200000"
  "new_Date3 100 1 1 = Some (- 59008780800000)"
  by (simp_all add: calendar_eval)

section \<open>The year level and the second level of the label engine\<close>

lemma label_call_eYear:
  "getLevelLabelForValue env eYear (Some t) =
     \<lparr>labelString = string_of_int (getFullYear t), labelDate = new_Date3 (getFullYear t) 1 1\<rparr>"
  by (simp add: getLevelLabelForValue_def Let_def)

lemma label_call_eMonth:
  "getLevelLabelForValue env eMonth (Some t) =
     \<lparr>labelString = loc env (kMonthNames ! nat (getMonth t)) @ '', '' @ string_of_int (getFullYear t),
      labelDate = new_Date3 (getFullYear t) (getMonth t) 1\<rparr>"
  by (simp add: getLevelLabelForValue_def Let_def)

lemma next_call_eYear:
  "getNextLevelLabelForValue env eYear (Some t) =
     getLevelLabelForValue env eYear (new_Date3 (getFullYear t + 1) (getMonth t) (getDate t))"
  by (simp add: getNextLevelLabelForValue_def Let_def)

lemma next_call_eMonth:
  "getNextLevelLabelForValue env eMonth (Some t) =
     getLevelLabelForValue env eMonth
       (if getMonth t + 1 > 12 then new_Date3 (getFullYear t + 1) 1 (getDate t)
        else new_Date3 (getFullYear t) (getMonth t + 1) (getDate t))"
  by (simp add: getNextLevelLabelForValue_def Let_def)

lemma first_call_eSecond:
  "findFirstDateAboveOrAtLevel env eSecond (Some t) =
     (let tResultDate = new_Date6 (getFullYear t) (getMonth t) (getDate t) (getHours t)
                          (getMinutes t) (getSeconds t)
      in Inr \<lparr>labelString = String_of_field (map_option getSeconds tResultDate),
               labelDate = tResultDate\<rparr>)"
  by (simp add: findFirstDateAboveOrAtLevel_def Let_def)

lemma first_call_eYear:
  "findFirstDateAboveOrAtLevel env eYear (Some t) =
     (if date_before (new_Date3 (getFullYear t) 1 1) t
      then Inr \<lparr>labelString = string_of_int (getFullYear t + 1),
               labelDate = new_Date3 (getFullYear t + 1) 1 1\<rparr>
      else Inr \<lparr>labelString = string_of_int (getFullYear t),
               labelDate = new_Date3 (getFullYear t) 1 1\<rparr>)"
  by (simp add: findFirstDateAboveOrAtLevel_def Let_def)

lemma fields_2023_06_15: "getFullYear 1686787200000 = 2023"
  by (simp add: calendar_eval)

lemma fields_2023_02_01:
  "getFullYear 1675209600000 = 2023" "getMonth 1675209600000 = 1" "getDate 1675209600000 = 1"
  by (simp_all add: calendar_eval)

lemma fields_2024_02_01:
  "getFullYear 1706745600000 = 2024" "getMonth 1706745600000 = 1" "getDate 1706745600000 = 1"
  by (simp_all add: calendar_eval)

lemma fields_2024_01_01: "getFullYear 1704067200000 = 2024"
  by (simp add: calendar_eval)

lemma fields_2023_01_31:
  "getFullYear 1675123200000 = 2023" "getMonth 1675123200000 = 0" "getDate 1675123200000 = 31"
  by (simp_all add: calendar_eval)

lemma fields_2023_03_03:
  "getFullYear 1677801600000 = 2023" "getMonth 1677801600000 = 2"
  by (simp_all add: calendar_eval)

lemma fields_half_second:
  "getFullYear 1672531200500 = 2023" "getMonth 1672531200500 = 0" "getDate 1672531200500 = 1"
  "getHours 1672531200500 = 0" "getMinutes 1672531200500 = 0" "getSeconds 1672531200500 = 0"
  by (simp_all add: calendar_eval)

lemma constructed_dates:
  "new_Date3 2023 1 1 = Some 1675209600000"
  "new_Date3 2024 1 1 = Some 1706745600000"
  "new_Date3 2024 0 1 = Some 1704067200000"
  "new_Date3 2023 1 31 = Some 1677801600000"
  "new_Date3 2023 2 1 = Some 1677628800000"
  "new_Date3 2023 0 1 = Some 1672531200000"
  "new_Date6 2023 0 1 0 0 0 = Some 1672531200000"
  by (simp_all add: calendar_eval)

text \<open>
  C1. At the year level the engine builds its instants with \<^verbatim>\<open>new Date(tYear, 1, 1)\<close>,
  and month 1 of a Date is February: the label of 2023-06-15 is the instant
  2023-02-01T00:00:00, and 2023-01-01 incremented by one year is 2024-02-01T00:00:00.
  Neither is aligned at the year level.
\<close>

theorem year_level_instant_is_february_first:
  "labelDate (getLevelLabelForValue env eYear (Some 1686787200000)) = Some 1675209600000
   \<and> getMonth 1675209600000 = 1 \<and> getDate 1675209600000 = 1
   \<and> \<not> aligned eYear 1675209600000
   \<and> resultDate (getLabelForIncrementedDateAtLevel env eYear (Some 1672531200000) 1)
       = Inr (Some 1706745600000)
   \<and> getMonth 1706745600000 = 1 \<and> getDate 1706745600000 = 1
   \<and> \<not> aligned eYear 1706745600000"
  using fields_2023_02_01 [unfolded getter_defs] fields_2024_02_01 [unfolded getter_defs]
  by (simp add: label_call_eYear inc_call_eYear fields_2023_06_15 fields_2023_01_01
      fields_2023_02_01 fields_2024_02_01 constructed_dates resultDate_def)

text \<open>
  The instant that the year level returns is always the first of February, whatever the
  input.
\<close>

lemma DateFromTime_month_start:
  assumes "0 \<le> m" and "m \<le> 11"
  shows "DateFromTime (MakeDay y m 1 * msPerDay) = 1"
  by (simp add: DateFromTime_def DayWithinYear_month_start [OF assms]
      InLeapYear_month_start [OF assms] MonthFromTime_month_start [OF assms])

lemma year_level_instant_always_february_first:
  assumes "labelDate (getLevelLabelForValue env eYear (Some t)) = Some r"
  shows "getMonth r = 1 \<and> getDate r = 1"
proof -
  define yr where "yr = (if 0 \<le> getFullYear t \<and> getFullYear t \<le> 99
                         then 1900 + getFullYear t else getFullYear t)"
  have "TimeClip (MakeDay yr 1 1 * msPerDay) = Some r"
    using assms
    by (simp add: label_call_eYear new_Date3_def new_Date6_def yr_def MakeDate_def MakeTime_def)
  then have "r = MakeDay yr 1 1 * msPerDay"
    by (simp add: TimeClip_def split: if_splits)
  then show ?thesis
    by (simp add: getter_defs MonthFromTime_month_start DateFromTime_month_start)
qed

text \<open>
  C3. At the second level the branch for an aligned value below the input builds the
  same value again: for the input 2023-01-01T00:00:00.500 the function returns
  2023-01-01T00:00:00.000, which is before the input. At the year level the aligned input
  2023-01-01T00:00:00 gives 2023-02-01T00:00:00.
\<close>

theorem first_date_at_second_level_before_input:
  "resultDate (findFirstDateAboveOrAtLevel env eSecond (Some 1672531200500))
     = Inr (Some 1672531200000)
   \<and> (1672531200000 :: int) < 1672531200500
   \<and> aligned eYear 1672531200000
   \<and> resultDate (findFirstDateAboveOrAtLevel env eYear (Some 1672531200000))
       = Inr (Some 1675209600000)"
  using fields_2023_01_01 [unfolded getter_defs]
  by (simp add: first_call_eSecond first_call_eYear fields_half_second fields_2023_01_01
      constructed_dates resultDate_def date_before_def)

text \<open>
  The second level of \<open>findFirstDateAboveOrAtLevel\<close> rounds down for every input: both
  branches build the Date from the fields of the input.
\<close>

lemma first_date_at_second_level_rounds_down:
  assumes "\<not> (0 \<le> getFullYear t \<and> getFullYear t \<le> 99)"
  shows "resultDate (findFirstDateAboveOrAtLevel env eSecond (Some t))
     = Inr (TimeClip ((t div msPerSecond) * msPerSecond))"
  using fields_second [of t 0] assms
  by (simp add: first_call_eSecond resultDate_def Let_def new_Date6_plain)

text \<open>
  C4. At the year level the label after 2023-02-01T00:00:00, the instant that
  \<open>getLevelLabelForValue\<close> returns for every date of 2023, is 2024-02-01T00:00:00: it is
  not aligned at the year level, and it is not one year after 2023-01-01. At the month
  level the day of the month is kept when the month is incremented: from 2023-01-31 the
  constructor is given 31 February 2023, which is 3 March, and the next label is
  2023-03-01, two months after the aligned-down value 2023-01-01.
\<close>

theorem next_label_not_one_unit_later:
  "labelDate (getNextLevelLabelForValue env eYear (Some 1675209600000)) = Some 1706745600000
   \<and> \<not> aligned eYear 1706745600000
   \<and> getMonth 1706745600000 = 1
   \<and> labelDate (getLevelLabelForValue env eMonth (Some 1675123200000)) = Some 1672531200000
   \<and> labelDate (getNextLevelLabelForValue env eMonth (Some 1675123200000)) = Some 1677628800000
   \<and> getMonth 1677628800000 = 2"
proof -
  have "getMonth 1677628800000 = 2" by (simp add: calendar_eval)
  then show ?thesis
    using fields_2024_02_01 [unfolded getter_defs]
    by (simp add: next_call_eMonth next_call_eYear label_call_eMonth label_call_eYear
        fields_2023_01_31 fields_2023_03_03 fields_2023_02_01 fields_2024_02_01
        constructed_dates)
qed

section \<open>The increment function: zero increments and composition\<close>

text \<open>
  C5, as stated, fails. At the month level the text returned for an increment of zero is
  the month name alone, while the label of \<open>getLevelLabelForValue\<close> is the month name
  followed by the year; the instant is 2023-01-01T00:00:00. And at the day level an
  increment of zero from 1 January of the year 50 returns 1 January 1950: the Date
  constructor reads a year from 0 to 99 as 1900 + year.
\<close>

theorem increment_by_zero_counterexample:
  "aligned eMonth 1672531200000
   \<and> resultString (getLabelForIncrementedDateAtLevel sampleCollaborators eMonth
         (Some 1672531200000) 0)
       \<noteq> Inr (labelString (getLevelLabelForValue sampleCollaborators eMonth (Some 1672531200000)))
   \<and> aligned eDay (- 60589296000000)
   \<and> resultDate (getLabelForIncrementedDateAtLevel sampleCollaborators eDay
         (Some (- 60589296000000)) 0)
       \<noteq> Inr (Some (- 60589296000000))"
proof -
  have a: "aligned eMonth 1672531200000"
    using fields_2023_01_01 by (simp add: getter_defs)
  have d: "new_Date3 2023 0 1 = Some 1672531200000" by (simp add: calendar_eval)
  have "resultString (getLabelForIncrementedDateAtLevel sampleCollaborators eMonth
         (Some 1672531200000) 0) = Inr ''DG.Formula.DateShortMonthJanuary''"
    by (simp add: inc_call_eMonth fields_2023_01_01 carryMonths_none d monthNameOf_def
        resultString_def sampleCollaborators_def kMonthNames_def)
  moreover have "labelString (getLevelLabelForValue sampleCollaborators eMonth (Some 1672531200000))
      = ''DG.Formula.DateShortMonthJanuary, 2023''"
    by (simp add: getLevelLabelForValue_def fields_2023_01_01 sampleCollaborators_def
        kMonthNames_def string_of_int_def string_of_nonneg.simps digit_char_def)
  moreover have "aligned eDay (- 60589296000000)"
    using fields_year_50 by (simp add: getter_defs)
  moreover have "new_Date3 50 0 1 = Some (- 631152000000)" by (simp add: calendar_eval)
  then have "resultDate (getLabelForIncrementedDateAtLevel sampleCollaborators eDay
         (Some (- 60589296000000)) 0) = Inr (Some (- 631152000000))"
    by (simp add: inc_call_eDay fields_year_50 resultDate_def)
  ultimately show ?thesis using a by simp
qed

lemma label_date_plain:
  assumes "level \<noteq> eYear" and "level \<noteq> eMonth"
    and "\<not> (0 \<le> getFullYear t \<and> getFullYear t \<le> 99)"
  shows "getLevelLabelForValue env level (Some t) =
     \<lparr>labelString = toLocaleDateString env (TimeClip (units_after level t 0)),
      labelDate = TimeClip (units_after level t 0)\<rparr>"
proof (cases level)
  case eSecond
  then show ?thesis
    using fields_second [of t 0] assms(3)
    by (simp add: getLevelLabelForValue_def Let_def new_Date6_plain)
next
  case eMinute
  then show ?thesis
    using fields_minute [of t 0] assms(3)
    by (simp add: getLevelLabelForValue_def Let_def new_Date6_plain)
next
  case eHour
  then show ?thesis
    using fields_hour [of "getDate t" "getHours t" t 0] assms(3)
    by (simp add: getLevelLabelForValue_def Let_def new_Date6_plain)
next
  case eDay
  then show ?thesis
    using fields_day [of t 0] assms(3)
    by (simp add: getLevelLabelForValue_def Let_def new_Date6_plain)
next
  case eMonth
  with assms show ?thesis by simp
next
  case eYear
  with assms show ?thesis by simp
qed

lemma inc_text_of_date:
  assumes "resultDate (getLabelForIncrementedDateAtLevel env level (Some x) 0) = Inr (Some x)"
    and "level \<noteq> eYear"
  shows "resultString (getLabelForIncrementedDateAtLevel env level (Some x) 0)
       = Inr (innerTickText env level x)"
proof (cases level)
  case eSecond
  with assms(1) show ?thesis
    by (auto simp add: inc_call_eSecond Let_def resultDate_def resultString_def)
next
  case eMinute
  with assms(1) show ?thesis
    by (auto simp add: inc_call_eMinute Let_def resultDate_def resultString_def)
next
  case eHour
  with assms(1) show ?thesis
    by (auto simp add: inc_call_eHour Let_def resultDate_def resultString_def
        String_of_field_def)
next
  case eDay
  with assms(1) show ?thesis
    by (auto simp add: inc_call_eDay Let_def resultDate_def resultString_def
        String_of_field_def)
next
  case eMonth
  with assms(1) show ?thesis
    by (auto simp add: inc_call_eMonth Let_def resultDate_def resultString_def
        monthNameOf_def split: option.splits)
next
  case eYear
  with assms show ?thesis by simp
qed

text \<open>
  C5, amended. Let \<open>x\<close> be aligned at the level, a valid time value, with a year outside
  0 to 99. At every level other than the year level an increment of zero returns the
  instant \<open>x\<close>. At every level the text returned is the text of an inner tick at \<open>x\<close>
  (the year; the month name alone; the day of the month; h:00; h:mm; h:mm:ss) and the
  text of \<open>getLevelLabelForValue\<close> is the text of an outer label at \<open>x\<close> (the year; the
  month name followed by the year; below the month level the rendering of \<open>x\<close> by the
  locale). The two texts are equal at the year level and differ at the month level.
\<close>

theorem increment_by_zero:
  assumes "aligned level x"
    and "\<not> (0 \<le> getFullYear x \<and> getFullYear x \<le> 99)"
    and "\<bar>x\<bar> \<le> 8640000000000000"
  shows "(level \<noteq> eYear \<longrightarrow>
            resultDate (getLabelForIncrementedDateAtLevel env level (Some x) 0) = Inr (Some x))
       \<and> resultString (getLabelForIncrementedDateAtLevel env level (Some x) 0)
           = Inr (innerTickText env level x)
       \<and> labelString (getLevelLabelForValue env level (Some x)) = outerLabelText env level x
       \<and> (level = eYear \<longrightarrow>
            resultString (getLabelForIncrementedDateAtLevel env level (Some x) 0)
              = Inr (labelString (getLevelLabelForValue env level (Some x))))
       \<and> (level = eMonth \<longrightarrow>
            resultString (getLabelForIncrementedDateAtLevel env level (Some x) 0)
              \<noteq> Inr (labelString (getLevelLabelForValue env level (Some x))))"
proof -
  let ?inc = "getLabelForIncrementedDateAtLevel env level (Some x) 0"
  have c: "TimeClip x = Some x" using assms(3) by (simp add: TimeClip_def)
  have d: "resultDate ?inc = Inr (Some x)" if l: "level \<noteq> eYear"
  proof -
    have "units_after level x 0 = x" using assms(1) l by (rule aligned_units_after)
    then show ?thesis using inc_date_plain [of x 0 env level] assms(2) c by simp
  qed
  have s: "resultString ?inc = Inr (innerTickText env level x)"
  proof (cases "level = eYear")
    case True
    then show ?thesis by (simp add: inc_call_eYear resultString_def)
  next
    case False
    then show ?thesis using d by (intro inc_text_of_date) simp_all
  qed
  have o: "labelString (getLevelLabelForValue env level (Some x)) = outerLabelText env level x"
  proof (cases "level = eYear \<or> level = eMonth")
    case True
    then show ?thesis by (auto simp add: label_call_eYear label_call_eMonth)
  next
    case False
    then have "units_after level x 0 = x" using assms(1) by (intro aligned_units_after) simp_all
    then have "labelString (getLevelLabelForValue env level (Some x))
        = toLocaleDateString env (Some x)"
      using False assms(2) c by (simp add: label_date_plain)
    then show ?thesis using False by (cases level) simp_all
  qed
  show ?thesis using d s o by (cases level) simp_all
qed

theorem increment_by_zero_witness:
  "aligned eMonth 1672531200000
   \<and> \<not> (0 \<le> getFullYear 1672531200000 \<and> getFullYear 1672531200000 \<le> 99)
   \<and> \<bar>1672531200000 :: int\<bar> \<le> 8640000000000000
   \<and> resultDate (getLabelForIncrementedDateAtLevel sampleCollaborators eMonth
         (Some 1672531200000) 0) = Inr (Some 1672531200000)
   \<and> resultString (getLabelForIncrementedDateAtLevel sampleCollaborators eMonth
         (Some 1672531200000) 0) = Inr (innerTickText sampleCollaborators eMonth 1672531200000)
   \<and> labelString (getLevelLabelForValue sampleCollaborators eMonth (Some 1672531200000))
       = outerLabelText sampleCollaborators eMonth 1672531200000
   \<and> resultString (getLabelForIncrementedDateAtLevel sampleCollaborators eMonth
         (Some 1672531200000) 0)
       \<noteq> Inr (labelString (getLevelLabelForValue sampleCollaborators eMonth (Some 1672531200000)))"
proof -
  have a: "aligned eMonth 1672531200000"
    using fields_2023_01_01 by (simp add: getter_defs)
  have y: "\<not> (0 \<le> getFullYear 1672531200000 \<and> getFullYear 1672531200000 \<le> 99)"
    by (simp add: fields_2023_01_01)
  have v: "\<bar>1672531200000 :: int\<bar> \<le> 8640000000000000" by simp
  from increment_by_zero [OF a y v, of sampleCollaborators] a y v show ?thesis by simp
qed

text \<open>
  From an instant whose year is at least 100, increments compose: incrementing by \<open>a\<close>
  and then by \<open>b\<close> returns the instant of incrementing by \<open>a + b\<close>, an invalid date or
  an exception of the first step being passed on.
\<close>

lemma increment_composes_from_year_100:
  assumes "100 \<le> getFullYear x" and "0 \<le> a" and "0 \<le> b"
  shows "resultDate (incrementTwice env level (Some x) a b)
       = resultDate (getLabelForIncrementedDateAtLevel env level (Some x) (a + b))"
proof -
  let ?inc = "getLabelForIncrementedDateAtLevel env level"
  have ab: "0 \<le> a + b" using assms(2,3) by simp
  have r1: "resultDate (?inc (Some x) a) =
      (case TimeClip (units_after level x a) of
         None \<Rightarrow> if level = eMonth then Inl TypeError else Inr None
       | Some r \<Rightarrow> Inr (Some r))"
    using assms(1,2) by (intro inc_date_plain) simp
  have r2: "resultDate (?inc (Some x) (a + b)) =
      (case TimeClip (units_after level x (a + b)) of
         None \<Rightarrow> if level = eMonth then Inl TypeError else Inr None
       | Some r \<Rightarrow> Inr (Some r))"
    using assms(1) ab by (intro inc_date_plain) simp
  show ?thesis
  proof (cases "TimeClip (units_after level x a)")
    case None
    then have "8640000000000000 < \<bar>units_after level x a\<bar>"
      by (simp add: TimeClip_def split: if_splits)
    moreover have "- 8640000000000000 \<le> units_after level x a"
      using assms(1,2) by (intro units_after_lower_bound) (simp add: getFullYear_def)
    ultimately have "8640000000000000 < units_after level x a" by simp
    also have "\<dots> \<le> units_after level x (a + b)" using assms(3) by (rule units_after_mono)
    finally have c2: "TimeClip (units_after level x (a + b)) = None"
      by (simp add: TimeClip_def)
    show ?thesis
    proof (cases "level = eMonth")
      case True
      with r1 None have "?inc (Some x) a = Inl TypeError"
        by (simp add: resultDate_cases)
      then show ?thesis using r2 c2 True by (simp add: incrementTwice_def resultDate_def)
    next
      case False
      with r1 None obtain l where "?inc (Some x) a = Inr l" "labelDate l = None"
        by (auto simp add: resultDate_cases)
      then show ?thesis using r2 c2 False
        by (simp add: incrementTwice_def inc_None resultDate_def)
    qed
  next
    case (Some r)
    then have r: "r = units_after level x a"
      by (simp add: TimeClip_def split: if_splits)
    from r1 Some obtain l where l: "?inc (Some x) a = Inr l" "labelDate l = Some r"
      by (auto simp add: resultDate_cases)
    have "100 \<le> getFullYear r"
      using assms(1) year_of_units_after [OF assms(2), of x level]
      by (simp add: r getFullYear_def)
    then have "resultDate (?inc (Some r) b) =
      (case TimeClip (units_after level r b) of
         None \<Rightarrow> if level = eMonth then Inl TypeError else Inr None
       | Some r \<Rightarrow> Inr (Some r))"
      using assms(3) by (intro inc_date_plain) simp
    then show ?thesis
      using l r2 by (simp add: incrementTwice_def r units_after_plus)
  qed
qed

text \<open>
  C7. The function passes the incremented year to \<^verbatim>\<open>new Date(year, ...)\<close>, which reads a
  year from 0 to 99 as 1900 + year. From 1 January of the year -5, an increment of ten
  years returns 1 February 1905 where the year 5 is meant, and 95 more years end on
  1 February 2000, while 105 years at once end on 1 February of the year 100: the two
  instants differ.
\<close>

theorem increment_across_two_digit_years:
  "aligned eYear (- 62324985600000)
   \<and> getFullYear (- 62324985600000) = - 5
   \<and> resultDate (getLabelForIncrementedDateAtLevel env eYear (Some (- 62324985600000)) 10)
       = Inr (Some (- 2048544000000))
   \<and> getFullYear (- 2048544000000) = 1905
   \<and> resultDate (incrementTwice env eYear (Some (- 62324985600000)) 10 95)
       = Inr (Some 949363200000)
   \<and> resultDate (getLabelForIncrementedDateAtLevel env eYear (Some (- 62324985600000)) (10 + 95))
       = Inr (Some (- 59008780800000))"
proof -
  have a: "aligned eYear (- 62324985600000)"
    using fields_year_minus_5 by (simp add: getter_defs)
  have "resultDate (getLabelForIncrementedDateAtLevel env eYear (Some (- 62324985600000)) 10)
      = Inr (Some (- 2048544000000))"
    by (simp add: inc_call_eYear fields_year_minus_5 february_firsts resultDate_def)
  moreover have "resultDate (incrementTwice env eYear (Some (- 62324985600000)) 10 95)
      = Inr (Some 949363200000)"
    by (simp add: incrementTwice_def inc_call_eYear fields_year_minus_5 fields_1905_02_01
        february_firsts resultDate_def)
  moreover have "resultDate (getLabelForIncrementedDateAtLevel env eYear
             (Some (- 62324985600000)) (10 + 95)) = Inr (Some (- 59008780800000))"
    by (simp add: inc_call_eYear fields_year_minus_5 february_firsts resultDate_def)
  ultimately show ?thesis using a by (simp add: fields_year_minus_5 fields_1905_02_01)
qed

section \<open>The tick iterator on a lower bound between two seconds\<close>

lemma forEachTick_loop_step:
  assumes "of_int v < tUpper"
    and "getLabelForIncrementedDateAtLevel env iLevel (Some v) 1 = Inr l"
  shows "forEachTick_loop env geom iLevel tUpper (Some v) visited =
     forEachTick_loop env geom iLevel tUpper (labelDate l)
       (visited @ [(of_int v, dataToCoordinate geom (number_div (of_int v) 1000))])"
  by (subst forEachTick_loop.simps) (simp add: assms)

lemma forEachTick_loop_stop:
  assumes "\<not> of_int v < tUpper"
  shows "forEachTick_loop env geom iLevel tUpper (Some v) visited = Some (visited, None)"
  by (subst forEachTick_loop.simps) (simp add: assms)

lemma second_steps:
  "getLabelForIncrementedDateAtLevel env eSecond (Some 1672531200000) 1 =
     Inr \<lparr>labelString = ''0:00:01'', labelDate = Some 1672531201000\<rparr>"
  "getLabelForIncrementedDateAtLevel env eSecond (Some 1672531201000) 1 =
     Inr \<lparr>labelString = ''0:00:02'', labelDate = Some 1672531202000\<rparr>"
  "getLabelForIncrementedDateAtLevel env eSecond (Some 1672531202000) 1 =
     Inr \<lparr>labelString = ''0:00:03'', labelDate = Some 1672531203000\<rparr>"
  by (simp_all add: inc_call_eSecond calendar_eval two_digits_def string_of_int_def
      string_of_nonneg.simps digit_char_def)

text \<open>
  C6. With the bounds 1672531200.5 and 1672531203 seconds the inner level is the
  second, and the ticks visited are 1672531200000, 1672531201000 and 1672531202000
  milliseconds: the first one lies before the lower bound, 1672531200500 milliseconds.
\<close>

theorem tick_before_lower_bound:
  "forEachTickDo env (sampleGeometry (3345062401 / 2) 1672531203) =
     Some ([(1672531200000, 1672531200), (1672531201000, 1672531201),
            (1672531202000, 1672531202)], None)
   \<and> (1672531200000 :: rat) < 1000 * lowerBound (sampleGeometry (3345062401 / 2) 1672531203)"
proof -
  let ?g = "sampleGeometry (3345062401 / 2) 1672531203"
  have b: "number_mul 1000 (lowerBound ?g) = 1672531200500"
      "number_mul 1000 (upperBound ?g) = 1672531203000"
    by (simp_all add: sampleGeometry_def number_mul_def roundToDouble_whole)
  have lv: "innerLevel (determineLevels 1672531200500 1672531203000) = eSecond"
    by (simp add: determineLevels_def kUnit_defs number_sub_def roundToDouble_whole)
  have d: "new_Date_value 1672531200500 = Some 1672531200500"
    by (simp add: new_Date_value_def truncate_number_def TimeClip_def)
  have f: "findFirstDateAboveOrAtLevel env eSecond (Some 1672531200500) =
      Inr \<lparr>labelString = ''0'', labelDate = Some 1672531200000\<rparr>"
    by (simp add: first_call_eSecond fields_half_second constructed_dates String_of_field_def
        fields_2023_01_01 string_of_int_def string_of_nonneg.simps digit_char_def)
  have "forEachTick_loop env ?g eSecond 1672531203000 (Some 1672531200000) [] =
      Some ([(1672531200000, 1672531200), (1672531201000, 1672531201),
            (1672531202000, 1672531202)], None)"
    by (simp add: forEachTick_loop_step second_steps forEachTick_loop_stop sampleGeometry_def
        number_div_def roundToDouble_whole)
  then show ?thesis
    by (simp add: forEachTickDo_def b lv d f) (simp add: sampleGeometry_def)
qed

section \<open>The adaptive stride search\<close>

subsection \<open>One pass of the simulation loop\<close>

lemma simulateStride_None:
  "simulateStride env geom lvl n None tLabel lastPx firstTime = Some (Inr False)"
  by (subst simulateStride.simps) simp

lemma simulateStride_done:
  assumes "\<not> of_int d < number_mul (upperBound geom) 1000"
  shows "simulateStride env geom lvl n (Some d) tLabel lastPx firstTime = Some (Inr False)"
  by (subst simulateStride.simps) (simp add: assms)

lemma simulateStride_pass:
  assumes "of_int d < number_mul (upperBound geom) 1000"
  shows "simulateStride env geom lvl n (Some d) tLabel lastPx firstTime =
     (let tPixel = dataToCoordinate geom (number_div (of_int d) 1000);
          tTextExtent = textExtentOnCanvas env tLabel;
          tHalfWidth = number_div (number_mul 5 tTextExtent) 8;
          tOverlapped =
            (case lastPx of
               None \<Rightarrow> False
             | Some l \<Rightarrow>
                 if orientation geom = horizontal then number_sub tPixel tHalfWidth < l
                 else number_add tPixel tHalfWidth > l)
      in if firstTime \<or> \<not> tOverlapped then
           (case getLabelForIncrementedDateAtLevel env lvl (Some d) n of
              Inl e \<Rightarrow> Some (Inl e)
            | Inr tCurrentDateLabel \<Rightarrow>
                simulateStride env geom lvl n
                  (labelDate tCurrentDateLabel) (labelString tCurrentDateLabel)
                  (Some (number_add tPixel
                     (if orientation geom = horizontal then tHalfWidth else - tHalfWidth)))
                  False)
         else Some (Inr True))"
  by (subst simulateStride.simps) (simp add: assms)

lemma inc_date_progress:
  assumes "1 \<le> n"
    and "getLabelForIncrementedDateAtLevel env lvl (Some d) n = Inr l"
    and "labelDate l = Some r"
  shows "d + (n - 1) * 1000 < r"
proof -
  have "resultDate (getLabelForIncrementedDateAtLevel env lvl (Some d) n) = Inr (Some r)"
    using assms(2,3) by (simp add: resultDate_def)
  then have "units_after lvl d n \<le> r" by (rule inc_date_lower)
  with units_after_progress [OF assms(1), of d lvl] show ?thesis by simp
qed

lemma inc_raises_at_month_only:
  assumes "getLabelForIncrementedDateAtLevel env lvl (Some d) n = Inl e"
  shows "lvl = eMonth"
proof -
  obtain y m dt h mi s where
    "resultDate (getLabelForIncrementedDateAtLevel env lvl (Some d) n) =
         (case new_Date6 y m dt h mi s of
            None \<Rightarrow> if lvl = eMonth then Inl TypeError else Inr None
          | Some r \<Rightarrow> Inr (Some r))"
    using inc_constructed [of lvl d n env] by blast
  with assms show ?thesis
    by (simp add: resultDate_def split: option.splits if_splits)
qed

text \<open>
  The simulation of a stride of at least one unit ends: every pass that does not find a
  collision moves the date forward by at least a millisecond, towards the upper bound.
\<close>

lemma simulateStride_total:
  assumes n: "1 \<le> n"
  shows "\<exists>res. simulateStride env geom lvl n tDate tLabel lastPx firstTime = Some res
           \<and> (\<forall>e. res = Inl e \<longrightarrow> lvl = eMonth)"
proof (induction "case tDate of None \<Rightarrow> 0
                               | Some d \<Rightarrow> nat (\<lceil>number_mul (upperBound geom) 1000\<rceil> - d)"
    arbitrary: tDate tLabel lastPx firstTime rule: less_induct)
  case less
  show ?case
  proof (cases tDate)
    case None
    then show ?thesis by (simp add: simulateStride_None)
  next
    case (Some d)
    show ?thesis
    proof (cases "of_int d < number_mul (upperBound geom) 1000")
      case False
      then show ?thesis by (simp add: Some simulateStride_done)
    next
      case True
      define p where "p = dataToCoordinate geom (number_div (of_int d) 1000)"
      define h where "h = number_div (number_mul 5 (textExtentOnCanvas env tLabel)) 8"
      define ok where "ok \<longleftrightarrow> firstTime \<or> \<not> (case lastPx of None \<Rightarrow> False
               | Some l \<Rightarrow> if orientation geom = horizontal then number_sub p h < l
                          else number_add p h > l)"
      define edge where
        "edge = number_add p (if orientation geom = horizontal then h else - h)"
      have pass: "simulateStride env geom lvl n (Some d) tLabel lastPx firstTime =
          (if ok then
             (case getLabelForIncrementedDateAtLevel env lvl (Some d) n of
                Inl e \<Rightarrow> Some (Inl e)
              | Inr l \<Rightarrow>
                  simulateStride env geom lvl n (labelDate l) (labelString l) (Some edge) False)
           else Some (Inr True))"
        unfolding simulateStride_pass [OF True] Let_def ok_def edge_def p_def h_def by simp
      show ?thesis
      proof (cases ok)
        case False
        then show ?thesis by (simp add: Some pass)
      next
        case ok: True
        show ?thesis
        proof (cases "getLabelForIncrementedDateAtLevel env lvl (Some d) n")
          case (Inl e)
          then have m: "lvl = eMonth" by (rule inc_raises_at_month_only)
          have "simulateStride env geom lvl n (Some d) tLabel lastPx firstTime = Some (Inl e)"
            using Inl ok by (simp add: pass)
          with m show ?thesis unfolding Some by blast
        next
          case (Inr l)
          have d: "d < \<lceil>number_mul (upperBound geom) 1000\<rceil>"
            using True by (simp add: less_ceiling_iff)
          have smaller: "(case labelDate l of None \<Rightarrow> 0
                | Some r \<Rightarrow> nat (\<lceil>number_mul (upperBound geom) 1000\<rceil> - r))
              < (case tDate of None \<Rightarrow> 0
                 | Some d \<Rightarrow> nat (\<lceil>number_mul (upperBound geom) 1000\<rceil> - d))"
          proof (cases "labelDate l")
            case None
            with d show ?thesis by (simp add: Some)
          next
            case r: (Some r)
            from n have "0 \<le> (n - 1) * 1000" by simp
            with inc_date_progress [OF n Inr r] have "d < r" by linarith
            with d show ?thesis by (simp add: Some r)
          qed
          from less.hyps [OF smaller, of "labelString l" "Some edge" False] Inr ok
          show ?thesis by (simp add: Some pass)
        qed
      qed
    qed
  qed
qed

subsection \<open>The search over the strides\<close>

text \<open>A stride that carries the second tick to the upper bound or beyond finds no collision.\<close>

lemma simulateStride_big_stride:
  assumes n: "1 \<le> n"
    and far: "number_mul (upperBound geom) 1000 \<le> of_int (d + (n - 1) * 1000)"
  shows "simulateStride env geom lvl n (Some d) tLabel None True \<noteq> Some (Inr True)"
proof (cases "of_int d < number_mul (upperBound geom) 1000")
  case False
  then show ?thesis by (simp add: simulateStride_done)
next
  case True
  show ?thesis
  proof (cases "getLabelForIncrementedDateAtLevel env lvl (Some d) n")
    case (Inl e)
    then show ?thesis by (simp add: simulateStride_pass [OF True])
  next
    case (Inr l)
    show ?thesis
    proof (cases "labelDate l")
      case None
      with Inr show ?thesis
        by (simp add: simulateStride_pass [OF True] simulateStride_None)
    next
      case (Some r)
      from inc_date_progress [OF n Inr Some] have "d + (n - 1) * 1000 < r" .
      then have "(of_int (d + (n - 1) * 1000) :: rat) < of_int r" by (simp only: of_int_less_iff)
      with far have "\<not> of_int r < number_mul (upperBound geom) 1000" by linarith
      with Inr Some show ?thesis
        by (simp add: simulateStride_pass [OF True] simulateStride_done)
    qed
  qed
qed

lemma no_collision_from:
  "\<exists>K. \<forall>n. K \<le> n \<longrightarrow> 1 \<le> n \<longrightarrow>
     simulateStride env geom lvl n tDate tLabel None True \<noteq> Some (Inr True)"
proof (cases tDate)
  case None
  then show ?thesis by (simp add: simulateStride_None)
next
  case (Some d)
  define U where "U = number_mul (upperBound geom) 1000"
  define K where "K = \<lceil>(U - of_int d) / 1000\<rceil> + 1"
  have "simulateStride env geom lvl n (Some d) tLabel None True \<noteq> Some (Inr True)"
    if "K \<le> n" "1 \<le> n" for n
  proof -
    have "(U - of_int d) / 1000 \<le> of_int \<lceil>(U - of_int d) / 1000\<rceil>"
      by (rule le_of_int_ceiling)
    also have "\<dots> \<le> of_int (n - 1)"
      using that(1) by (simp only: of_int_le_iff K_def)
    finally have "U - of_int d \<le> of_int (n - 1) * 1000"
      by (simp add: field_simps)
    then have "number_mul (upperBound geom) 1000 \<le> of_int (d + (n - 1) * 1000)"
      by (simp add: U_def)
    with that(2) show ?thesis by (rule simulateStride_big_stride)
  qed
  then show ?thesis unfolding Some by blast
qed

lemma findWorkableInterval_step:
  assumes "simulateStride env geom lvl i (labelDate f) (labelString f) None True = Some res"
  shows "findWorkableInterval env geom lvl f i =
     (case res of
        Inl e \<Rightarrow> Some (Inl e)
      | Inr tFoundCollision \<Rightarrow>
          if tFoundCollision then findWorkableInterval env geom lvl f (i + 1)
          else Some (Inr i))"
  by (subst findWorkableInterval.simps) (simp add: assms)

text \<open>
  The search returns: it raises what the label engine raised, or it returns the first
  stride, counted from the one it starts with, whose simulation finds no collision.
\<close>

lemma findWorkableInterval_total:
  assumes i: "1 \<le> i"
  shows "\<exists>res. findWorkableInterval env geom lvl f i = Some res
     \<and> (\<forall>e. res = Inl e \<longrightarrow> lvl = eMonth)
     \<and> (\<forall>k. res = Inr k \<longrightarrow>
           i \<le> k
           \<and> simulateStride env geom lvl k (labelDate f) (labelString f) None True
               = Some (Inr False)
           \<and> (\<forall>j. i \<le> j \<and> j < k \<longrightarrow>
                 simulateStride env geom lvl j (labelDate f) (labelString f) None True
                   = Some (Inr True)))"
proof -
  obtain K where K: "\<And>n. K \<le> n \<Longrightarrow> 1 \<le> n \<Longrightarrow>
      simulateStride env geom lvl n (labelDate f) (labelString f) None True \<noteq> Some (Inr True)"
    using no_collision_from [of env geom lvl "labelDate f" "labelString f"] by blast
  show ?thesis
    using i
  proof (induction "nat (K - i)" arbitrary: i rule: less_induct)
    case less
    let ?sim = "\<lambda>n. simulateStride env geom lvl n (labelDate f) (labelString f) None True"
    obtain res where res: "?sim i = Some res"
      and raise: "\<forall>e. res = Inl e \<longrightarrow> lvl = eMonth"
      using simulateStride_total [OF less.prems, of env geom lvl "labelDate f" "labelString f"]
      by blast
    note step = findWorkableInterval_step [OF res]
    show ?case
    proof (cases res)
      case (Inl e)
      with raise step show ?thesis by simp
    next
      case (Inr c)
      show ?thesis
      proof (cases c)
        case False
        with Inr step res show ?thesis by auto
      next
        case True
        with Inr res have coll: "?sim i = Some (Inr True)" by simp
        with K [of i] less.prems have "i < K" by (cases "K \<le> i") simp_all
        then have "nat (K - (i + 1)) < nat (K - i)" by simp
        moreover from less.prems have "1 \<le> i + 1" by simp
        ultimately obtain res' where
          r: "findWorkableInterval env geom lvl f (i + 1) = Some res'"
          and r1: "\<forall>e. res' = Inl e \<longrightarrow> lvl = eMonth"
          and r2: "\<forall>k. res' = Inr k \<longrightarrow>
             i + 1 \<le> k
             \<and> ?sim k = Some (Inr False)
             \<and> (\<forall>j. i + 1 \<le> j \<and> j < k \<longrightarrow> ?sim j = Some (Inr True))"
          using less.hyps [of "i + 1"] by blast
        have eq: "findWorkableInterval env geom lvl f i = Some res'"
          using step Inr True r by simp
        have "?sim j = Some (Inr True)" if "res' = Inr k" "i \<le> j" "j < k" for k j
        proof (cases "j = i")
          case True
          with coll show ?thesis by simp
        next
          case False
          with that r2 show ?thesis by simp
        qed
        with eq r1 r2 show ?thesis by auto
      qed
    qed
  qed
qed

lemma findDrawValueModulus_returns:
  "\<exists>r. findDrawValueModulus env geom iInnerLevel iFirstDateLabel = Some r
     \<and> (\<forall>e. r = Inl e \<longrightarrow> iInnerLevel = eMonth)
     \<and> (\<forall>k. r = Inr k \<longrightarrow>
           1 \<le> k
           \<and> simulateStride env geom iInnerLevel k (labelDate iFirstDateLabel)
                 (labelString iFirstDateLabel) None True = Some (Inr False)
           \<and> (\<forall>j. 1 \<le> j \<and> j < k \<longrightarrow>
                 simulateStride env geom iInnerLevel j (labelDate iFirstDateLabel)
                     (labelString iFirstDateLabel) None True = Some (Inr True)))"
  unfolding findDrawValueModulus_def
  by (intro findWorkableInterval_total) simp

section \<open>The labels drawn for an accepted stride\<close>

lemma first_call_eMinute:
  "findFirstDateAboveOrAtLevel env eMinute (Some t) =
     (let tResultDate = new_Date5 (getFullYear t) (getMonth t) (getDate t) (getHours t)
                          (getMinutes t);
          tResultDate =
            (if date_before tResultDate t
             then new_Date5 (getFullYear t) (getMonth t) (getDate t) (getHours t)
                    (getMinutes t + 1)
             else tResultDate)
      in Inr \<lparr>labelString = String_of_field (map_option getMinutes tResultDate),
               labelDate = tResultDate\<rparr>)"
  by (simp add: findFirstDateAboveOrAtLevel_def Let_def)

lemma drawInnerLabels_loop_step:
  assumes "labelDate l = Some d" and "of_int d < number_mul (upperBound geom) 1000"
    and "getLabelForIncrementedDateAtLevel env iLevel (Some d) 1 = Inr l'"
  shows "drawInnerLabels_loop env geom iLevel m l c drawn =
     drawInnerLabels_loop env geom iLevel m l' ((c + 1) mod m)
       (drawn @ [drawTickAndLabel geom d (labelString l) (c = 0)])"
  by (subst drawInnerLabels_loop.simps) (simp add: assms)

lemma drawInnerLabels_loop_stop:
  assumes "labelDate l = Some d" and "\<not> of_int d < number_mul (upperBound geom) 1000"
  shows "drawInnerLabels_loop env geom iLevel m l c drawn = Some (drawn, None)"
  by (subst drawInnerLabels_loop.simps) (simp add: assms)

lemma fields_00_00_50:
  "getFullYear 1672531250000 = 2023" "getMonth 1672531250000 = 0" "getDate 1672531250000 = 1"
  "getHours 1672531250000 = 0" "getMinutes 1672531250000 = 0"
  by (simp_all add: calendar_eval)

lemma first_minute_after_00_00_50:
  "findFirstDateAboveOrAtLevel env eMinute (Some 1672531250000) =
     Inr \<lparr>labelString = ''1'', labelDate = Some 1672531260000\<rparr>"
proof -
  have "new_Date5 2023 0 1 0 0 = Some 1672531200000"
    "new_Date5 2023 0 1 0 (0 + 1) = Some 1672531260000"
    "getMinutes 1672531260000 = 1"
    by (simp_all add: calendar_eval)
  then show ?thesis
    by (simp add: first_call_eMinute fields_00_00_50 date_before_def String_of_field_def
        string_of_int_def string_of_nonneg.simps digit_char_def)
qed

lemma minute_steps:
  "getLabelForIncrementedDateAtLevel env eMinute (Some 1672531260000) 0 =
     Inr \<lparr>labelString = ''0:01'', labelDate = Some 1672531260000\<rparr>"
  "getLabelForIncrementedDateAtLevel env eMinute (Some 1672531260000) 1 =
     Inr \<lparr>labelString = ''0:02'', labelDate = Some 1672531320000\<rparr>"
  "getLabelForIncrementedDateAtLevel env eMinute (Some 1672531260000) 2 =
     Inr \<lparr>labelString = ''0:03'', labelDate = Some 1672531380000\<rparr>"
  "getLabelForIncrementedDateAtLevel env eMinute (Some 1672531320000) 1 =
     Inr \<lparr>labelString = ''0:03'', labelDate = Some 1672531380000\<rparr>"
  "getLabelForIncrementedDateAtLevel env eMinute (Some 1672531380000) 1 =
     Inr \<lparr>labelString = ''0:04'', labelDate = Some 1672531440000\<rparr>"
  "getLabelForIncrementedDateAtLevel env eMinute (Some 1672531380000) 2 =
     Inr \<lparr>labelString = ''0:05'', labelDate = Some 1672531500000\<rparr>"
  by (simp_all add: inc_call_eMinute calendar_eval two_digits_def string_of_int_def
      string_of_nonneg.simps digit_char_def)

lemma sample_axis:
  "number_mul 1000 (lowerBound (sampleGeometryQuarter 1672531250 1672531430)) = 1672531250000"
  "number_mul 1000 (upperBound (sampleGeometryQuarter 1672531250 1672531430)) = 1672531430000"
  "number_mul (lowerBound (sampleGeometryQuarter 1672531250 1672531430)) 1000 = 1672531250000"
  "number_mul (upperBound (sampleGeometryQuarter 1672531250 1672531430)) 1000 = 1672531430000"
  "orientation (sampleGeometryQuarter 1672531250 1672531430) = horizontal"
  "dataToCoordinate (sampleGeometryQuarter 1672531250 1672531430) = (\<lambda>v. (v - 1672531250) / 4)"
  "pixelMin (sampleGeometryQuarter 1672531250 1672531430) = 0"
  "pixelMax (sampleGeometryQuarter 1672531250 1672531430) = 45"
  by (simp_all add: sampleGeometryQuarter_def number_mul_def roundToDouble_whole)

lemma sample_strides:
  "simulateStride sampleCollaborators (sampleGeometryQuarter 1672531250 1672531430) eMinute 1
     (Some 1672531260000) ''1'' None True = Some (Inr True)"
  "simulateStride sampleCollaborators (sampleGeometryQuarter 1672531250 1672531430) eMinute 2
     (Some 1672531260000) ''1'' None True = Some (Inr False)"
  by (simp_all add: simulateStride_pass simulateStride_done sample_axis minute_steps
      sampleCollaborators_def Let_def number_exact)

text \<open>
  C8. The simulation measures, for the first tick, the text returned by
  \<open>findFirstDateAboveOrAtLevel\<close>, while the text drawn for that tick is the one returned by
  \<open>getLabelForIncrementedDateAtLevel\<close> for an increment of zero. At the minute level the
  first is the minute alone and the second has the hour as well. Take the horizontal
  axis from 2023-01-01T00:00:50 to 00:03:50 with one pixel for four seconds, 45 pixels
  long, every text being 8 pixels wide for each character and 2 more. The span is three
  minutes, so that the inner level is the minute. The first tick, 00:01:00, is measured
  with the text 1, ten pixels wide. The stride 1 collides on its second tick; the stride
  2 is accepted, its ticks being 00:01:00 and 00:03:00, 30 pixels apart. The labels drawn
  for them, 0:01 and 0:03, are 34 pixels wide each: they overlap.
\<close>

theorem accepted_stride_draws_overlapping_labels:
  "innerLevel (determineLevels
       (number_mul 1000 (lowerBound (sampleGeometryQuarter 1672531250 1672531430)))
       (number_mul 1000 (upperBound (sampleGeometryQuarter 1672531250 1672531430)))) = eMinute
   \<and> findFirstDateAboveOrAtLevel sampleCollaborators eMinute
       (new_Date_value (number_mul (lowerBound (sampleGeometryQuarter 1672531250 1672531430)) 1000))
       = Inr \<lparr>labelString = ''1'', labelDate = Some 1672531260000\<rparr>
   \<and> findDrawValueModulus sampleCollaborators (sampleGeometryQuarter 1672531250 1672531430)
       eMinute \<lparr>labelString = ''1'', labelDate = Some 1672531260000\<rparr> = Some (Inr 2)
   \<and> drawInnerLabels sampleCollaborators (sampleGeometryQuarter 1672531250 1672531430) eMinute
       = Some ([(5 / 2, Some ''0:01''), (35 / 2, None), (65 / 2, Some ''0:03'')], None)
   \<and> drawnLabels sampleCollaborators
         [(5 / 2, Some ''0:01''), (35 / 2, None), (65 / 2, Some ''0:03'')]
       = [(5 / 2, 34), (65 / 2, 34)]
   \<and> \<not> no_overlap horizontal [(5 / 2, 34), (65 / 2, 34)]
   \<and> pixelMax (sampleGeometryQuarter 1672531250 1672531430)
       - pixelMin (sampleGeometryQuarter 1672531250 1672531430) = 45"
proof -
  let ?g = "sampleGeometryQuarter 1672531250 1672531430"
  let ?first = "\<lparr>labelString = ''1'', labelDate = Some 1672531260000\<rparr>"
  have lv: "innerLevel (determineLevels 1672531250000 1672531430000) = eMinute"
    by (simp add: determineLevels_def kUnit_defs number_sub_def roundToDouble_whole)
  have d: "new_Date_value 1672531250000 = Some 1672531250000"
    by (simp add: new_Date_value_def truncate_number_def)
  have f: "findFirstDateAboveOrAtLevel sampleCollaborators eMinute (Some 1672531250000)
      = Inr ?first"
    by (rule first_minute_after_00_00_50)
  have m: "findDrawValueModulus sampleCollaborators ?g eMinute ?first = Some (Inr 2)"
    unfolding findDrawValueModulus_def
    by (simp add: findWorkableInterval_step [where res = "Inr True"]
        findWorkableInterval_step [where res = "Inr False"] sample_strides)
  have loop: "drawInnerLabels_loop sampleCollaborators ?g eMinute 2
      \<lparr>labelString = ''0:01'', labelDate = Some 1672531260000\<rparr> 0 []
      = Some ([(5 / 2, Some ''0:01''), (35 / 2, None), (65 / 2, Some ''0:03'')], None)"
    by (simp add: drawInnerLabels_loop_step [where d = 1672531260000]
        drawInnerLabels_loop_step [where d = 1672531320000]
        drawInnerLabels_loop_step [where d = 1672531380000]
        drawInnerLabels_loop_stop [where d = 1672531440000]
        minute_steps sample_axis drawTickAndLabel_def Let_def number_exact)
  have dr: "drawInnerLabels sampleCollaborators ?g eMinute
      = Some ([(5 / 2, Some ''0:01''), (35 / 2, None), (65 / 2, Some ''0:03'')], None)"
    by (simp add: drawInnerLabels_def sample_axis d f m minute_steps loop)
  have w: "drawnLabels sampleCollaborators
         [(5 / 2, Some ''0:01''), (35 / 2, None), (65 / 2, Some ''0:03'')]
       = [(5 / 2, 34), (65 / 2, 34)]"
    by (simp add: sampleCollaborators_def)
  show ?thesis
    using lv d f m dr w by (simp add: sample_axis)
qed

end
